theory Spec2Isabelle
  imports Complex_Main "HOL-Library.Sublist" "HOL-Library.Multiset"
begin

section \<open>Data model\<close>

text \<open>
  The two programs \<^verbatim>\<open>text-searcher-1.py\<close> (threads, one dictionary guarded by a lock) and
  \<^verbatim>\<open>text-searcher-2.py\<close> (processes, results handed over through a queue) scan a list of
  files for keywords. Names of the first file carry the suffix \<open>1\<close>, names of the second the
  suffix \<open>2\<close>; what both files share literally has no suffix.

  A \<^verbatim>\<open>str\<close> is the list of its characters; a character outside ASCII is the sequence
  of its UTF-8 bytes, which keeps the substring relation. A path is the string
  \<^verbatim>\<open>str(filepath)\<close>.

  What the programs take from the operating system and the Python runtime is an input of
  the model: \<open>read_text\<close> is \<^verbatim>\<open>open(filepath, 'r', encoding='utf-8')\<close> followed by
  \<^verbatim>\<open>file.read()\<close>, \<open>glob\<close> is \<^verbatim>\<open>list(Path(directory).glob(file_pattern))\<close>; either
  returns a value or raises. \<open>str_lower\<close> is the built-in \<^verbatim>\<open>str.lower()\<close>, a function on
  whole strings with Unicode's case tables, which are no part of the programs: every result
  below holds for whatever function it is.
\<close>

type_synonym path = string

datatype exn =
    FileNotFoundError
  | PermissionError
  | UnicodeDecodeError
  | NotImplementedError
  | ZeroDivisionError
  | ValueError

record environment =
  read_text :: "path \<Rightarrow> exn + string"
  glob :: "string \<Rightarrow> string \<Rightarrow> exn + path list"
  str_lower :: "string \<Rightarrow> string"

text \<open>
  What the programs report: the records of \<^verbatim>\<open>self.logger\<close> and, in the second file,
  the line \<^verbatim>\<open>search_file\<close> prints. The elapsed time of the first info record is not
  modelled.
\<close>

datatype log_event =
    FileError path exn
  | NoFilesWarning string string
  | InfoFinished
  | InfoProcessed nat
  | DirectoryError exn

subsection \<open>Strings\<close>

text \<open>
  \<^verbatim>\<open>a in b\<close> on strings is \<^const>\<open>sublist\<close>: \<open>b = ps @ a @ ss\<close> for some \<open>ps\<close>, \<open>ss\<close>.
\<close>

subsection \<open>Dictionaries of sets\<close>

text \<open>
  A \<^verbatim>\<open>defaultdict(set)\<close> from keywords to sets of paths, as the list of its items in
  insertion order. \<open>dd_update k ps d\<close> is \<^verbatim>\<open>d[k].update(ps)\<close>: a missing key is first
  created with the empty set. \<open>lookup d k\<close> reads the dictionary as \<^verbatim>\<open>d.get(k, set())\<close>.
\<close>

type_synonym result_dict = "(string \<times> path set) list"

fun dd_update :: "string \<Rightarrow> path set \<Rightarrow> result_dict \<Rightarrow> result_dict" where
  "dd_update k ps [] = [(k, {} \<union> ps)]"
| "dd_update k ps ((k', s) # d) =
     (if k' = k then (k', s \<union> ps) # d else (k', s) # dd_update k ps d)"

definition lookup :: "result_dict \<Rightarrow> string \<Rightarrow> path set" where
  "lookup d k = (case map_of d k of None \<Rightarrow> {} | Some s \<Rightarrow> s)"

text \<open>
  \<^verbatim>\<open>for keyword, files in local_results.items(): results[keyword].update(files)\<close>
\<close>

definition merge_items :: "result_dict \<Rightarrow> result_dict \<Rightarrow> result_dict" where
  "merge_items local_results global_results =
     fold (\<lambda>(keyword, files). dd_update keyword files) local_results global_results"

section \<open>Scanning one file\<close>

text \<open>
  The loop of \<^verbatim>\<open>search_file\<close>, the same in both files; \<open>lower\<close> is \<^verbatim>\<open>str.lower()\<close>
  and \<open>content\<close> the lowercased text.
  \<^verbatim>\<open>
  for keyword in keywords:
      if keyword.lower() in content:
          local_results[keyword].add(str(filepath))
  \<close>
\<close>

definition scan_keywords ::
  "(string \<Rightarrow> string) \<Rightarrow> string list \<Rightarrow> path \<Rightarrow> string \<Rightarrow> result_dict" where
  "scan_keywords lower kws filepath content =
     fold (\<lambda>keyword local_results.
             if sublist (lower keyword) content
             then dd_update keyword {filepath} local_results
             else local_results) kws []"

subsection \<open>text-searcher-1.py\<close>

text \<open>
  \<open>keywords1\<close> is \<^verbatim>\<open>set(keywords)\<close> in an iteration order, \<open>results\<close> the dictionary
  created once in \<^verbatim>\<open>__init__\<close>, \<open>logger\<close> the records emitted so far.
\<close>

record TextSearcher =
  keywords1 :: "string list"
  num_threads :: int
  results :: result_dict
  logger :: "log_event list"

definition init1 :: "string list \<Rightarrow> int \<Rightarrow> TextSearcher" where
  "init1 kws n = \<lparr>keywords1 = remdups kws, num_threads = n, results = [], logger = []\<rparr>"

definition search_file1 :: "TextSearcher \<Rightarrow> environment \<Rightarrow> path \<Rightarrow> TextSearcher \<times> result_dict" where
  "search_file1 self env filepath =
     (case read_text env filepath of
        Inr text \<Rightarrow>
          (self, scan_keywords (str_lower env) (keywords1 self) filepath (str_lower env text))
      | Inl e \<Rightarrow> (self\<lparr>logger := logger self @ [FileError filepath e]\<rparr>, []))"

text \<open>
  One round of the loop of \<^verbatim>\<open>process_files\<close>: scan the file, then merge under
  \<^verbatim>\<open>results_lock\<close>.
\<close>

definition process_file1 :: "environment \<Rightarrow> path \<Rightarrow> TextSearcher \<Rightarrow> TextSearcher" where
  "process_file1 env filepath self =
     (case search_file1 self env filepath of
        (self', local_results) \<Rightarrow>
          self'\<lparr>results := merge_items local_results (results self')\<rparr>)"

definition process_files1 :: "environment \<Rightarrow> path list \<Rightarrow> TextSearcher \<Rightarrow> TextSearcher" where
  "process_files1 env files self = fold (process_file1 env) files self"

subsection \<open>text-searcher-2.py\<close>

record TextSearcher2 =
  keywords2 :: "string list"
  num_processes :: int
  logger2 :: "log_event list"

text \<open>
  \<^verbatim>\<open>self.num_processes = num_processes or mp.cpu_count()\<close>: \<^verbatim>\<open>None\<close> and \<open>0\<close> are
  falsy. \<open>cpu_count\<close> is an input.
\<close>

definition init2 :: "string list \<Rightarrow> int option \<Rightarrow> int \<Rightarrow> TextSearcher2" where
  "init2 kws n cpu_count =
     \<lparr>keywords2 = remdups kws,
      num_processes = (case n of None \<Rightarrow> cpu_count | Some m \<Rightarrow> if m = 0 then cpu_count else m),
      logger2 = []\<rparr>"

text \<open>The static method returns what it printed and \<^verbatim>\<open>dict(local_results)\<close>.\<close>

definition search_file2 :: "environment \<Rightarrow> path \<Rightarrow> string list \<Rightarrow> log_event list \<times> result_dict" where
  "search_file2 env filepath kws =
     (case read_text env filepath of
        Inr text \<Rightarrow> ([], scan_keywords (str_lower env) kws filepath (str_lower env text))
      | Inl e \<Rightarrow> ([FileError filepath e], []))"

text \<open>
  \<^verbatim>\<open>process_files\<close> of a child process: what it printed and the dictionary it puts on
  the queue.
\<close>

definition process_files2 :: "environment \<Rightarrow> path list \<Rightarrow> string list \<Rightarrow> log_event list \<times> result_dict" where
  "process_files2 env files kws =
     fold (\<lambda>filepath (printed, process_results).
             case search_file2 env filepath kws of
               (out, file_results) \<Rightarrow> (printed @ out, merge_items file_results process_results))
          files ([], [])"

section \<open>Partitioning the file list\<close>

text \<open>
  \<^verbatim>\<open>range(i, stop, step)\<close> for a positive step, and \<^verbatim>\<open>range(0, stop, step)\<close> for any
  integer step: zero raises \<^verbatim>\<open>ValueError\<close>, a negative step gives the empty range.
\<close>

function py_range :: "nat \<Rightarrow> nat \<Rightarrow> nat \<Rightarrow> nat list" where
  "py_range i stop step =
     (if 0 < step \<and> i < stop then i # py_range (i + step) stop step else [])"
  by pat_completeness auto
termination
  by (relation "measure (\<lambda>(i, stop, step). stop - i)") auto

declare py_range.simps [simp del]

definition range0 :: "nat \<Rightarrow> int \<Rightarrow> exn + nat list" where
  "range0 stop step =
     (if step = 0 then Inl ValueError
      else if step < 0 then Inr []
      else Inr (py_range 0 stop (nat step)))"

text \<open>\<^verbatim>\<open>xs[i:j]\<close> for \<open>0 \<le> i \<le> j\<close>.\<close>

definition slice :: "'a list \<Rightarrow> nat \<Rightarrow> nat \<Rightarrow> 'a list" where
  "slice xs i j = take (j - i) (drop i xs)"

text \<open>
  \<^verbatim>\<open>files_per_thread = len(all_files) // self.num_threads + 1\<close>; \<^verbatim>\<open>//\<close> rounds down
  and raises on a zero divisor.
\<close>

definition files_per_thread :: "nat \<Rightarrow> int \<Rightarrow> exn + int" where
  "files_per_thread n workers =
     (if workers = 0 then Inl ZeroDivisionError else Inr (int n div workers + 1))"

text \<open>
  \<^verbatim>\<open>
  file_chunks = [all_files[i:i + files_per_thread]
                 for i in range(0, len(all_files), files_per_thread)]
  \<close>
\<close>

definition file_chunks :: "'a list \<Rightarrow> int \<Rightarrow> exn + 'a list list" where
  "file_chunks all_files workers =
     (case files_per_thread (length all_files) workers of
        Inl e \<Rightarrow> Inl e
      | Inr per \<Rightarrow>
          (case range0 (length all_files) per of
             Inl e \<Rightarrow> Inl e
           | Inr starts \<Rightarrow> Inr (map (\<lambda>i. slice all_files i (i + nat per)) starts)))"

section \<open>Running the workers\<close>

text \<open>
  The workers run concurrently. A schedule is a list of worker numbers: at each entry that
  worker hands over its next item, if it has one; when the schedule is used up every worker
  runs to its end, as the join at the end of \<^verbatim>\<open>search_directory\<close> waits for all of them.
  \<open>interleave sched chunks\<close> is the order in which the items are handed over.
\<close>

fun interleave :: "nat list \<Rightarrow> 'a list list \<Rightarrow> 'a list" where
  "interleave [] chunks = concat chunks"
| "interleave (w # sched) chunks =
     (if w < length chunks then
        (case chunks ! w of
           [] \<Rightarrow> interleave sched chunks
         | x # rest \<Rightarrow> x # interleave sched (chunks[w := rest]))
      else interleave sched chunks)"

text \<open>
  \<^verbatim>\<open>executor.map(self.process_files, file_chunks)\<close> inside the \<^verbatim>\<open>with\<close> block: each
  thread runs \<^verbatim>\<open>process_files\<close> on its chunk; the rounds of the threads interleave, and
  the merge of a round is atomic under the lock.
\<close>

definition executor_map1 :: "nat list \<Rightarrow> environment \<Rightarrow> path list list \<Rightarrow> TextSearcher \<Rightarrow> TextSearcher" where
  "executor_map1 sched env chunks self = fold (process_file1 env) (interleave sched chunks) self"

text \<open>
  The body of the \<^verbatim>\<open>try\<close> in \<^verbatim>\<open>search_directory\<close> of the first file.
  \<^verbatim>\<open>ThreadPoolExecutor(max_workers=n)\<close> raises \<^verbatim>\<open>ValueError\<close> for \<open>n \<le> 0\<close>.
\<close>

definition search_directory1_try ::
  "nat list \<Rightarrow> environment \<Rightarrow> string \<Rightarrow> string \<Rightarrow> TextSearcher \<Rightarrow> exn + TextSearcher" where
  "search_directory1_try sched env directory file_pattern self =
     (case glob env directory file_pattern of
        Inl e \<Rightarrow> Inl e
      | Inr all_files \<Rightarrow>
          if all_files = [] then
            Inr (self\<lparr>logger := logger self @ [NoFilesWarning file_pattern directory]\<rparr>)
          else
            (case file_chunks all_files (num_threads self) of
               Inl e \<Rightarrow> Inl e
             | Inr chunks \<Rightarrow>
                 if num_threads self \<le> 0 then Inl ValueError
                 else
                   (let self' = executor_map1 sched env chunks self
                    in Inr (self'\<lparr>logger := logger self' @
                                   [InfoFinished, InfoProcessed (length all_files)]\<rparr>))))"

text \<open>
  \<^verbatim>\<open>search_directory\<close> of the first file: every path returns \<^verbatim>\<open>dict(self.results)\<close>;
  the \<^verbatim>\<open>except\<close> clause logs the exception first.
\<close>

definition search_directory1 ::
  "nat list \<Rightarrow> environment \<Rightarrow> string \<Rightarrow> string \<Rightarrow> TextSearcher \<Rightarrow> TextSearcher \<times> result_dict" where
  "search_directory1 sched env directory file_pattern self =
     (case search_directory1_try sched env directory file_pattern self of
        Inr self' \<Rightarrow> (self', results self')
      | Inl e \<Rightarrow>
          (let self' = self\<lparr>logger := logger self @ [DirectoryError e]\<rparr>
           in (self', results self')))"

text \<open>
  The second file starts one process per chunk and takes as many dictionaries from the
  queue as there are processes, in the order of their arrival, merging each into
  \<^verbatim>\<open>final_results\<close>, which starts empty.
\<close>

definition queue_order :: "nat list \<Rightarrow> 'a list \<Rightarrow> 'a list" where
  "queue_order sched msgs = interleave sched (map (\<lambda>m. [m]) msgs)"

definition collect2 :: "(log_event list \<times> result_dict) list \<Rightarrow> log_event list \<times> result_dict" where
  "collect2 arrivals =
     fold (\<lambda>(out, process_results) (printed, final_results).
             (printed @ out, merge_items process_results final_results))
          arrivals ([], [])"

definition search_directory2_try ::
  "nat list \<Rightarrow> environment \<Rightarrow> string \<Rightarrow> string \<Rightarrow> TextSearcher2 \<Rightarrow>
   exn + (TextSearcher2 \<times> log_event list \<times> result_dict)" where
  "search_directory2_try sched env directory file_pattern self =
     (case glob env directory file_pattern of
        Inl e \<Rightarrow> Inl e
      | Inr all_files \<Rightarrow>
          if all_files = [] then
            Inr (self\<lparr>logger2 := logger2 self @ [NoFilesWarning file_pattern directory]\<rparr>, [], [])
          else
            (case file_chunks all_files (num_processes self) of
               Inl e \<Rightarrow> Inl e
             | Inr chunks \<Rightarrow>
                 (case collect2 (queue_order sched
                         (map (\<lambda>chunk. process_files2 env chunk (keywords2 self)) chunks)) of
                    (printed, final_results) \<Rightarrow>
                      Inr (self\<lparr>logger2 := logger2 self @
                                  [InfoFinished, InfoProcessed (length all_files)]\<rparr>,
                           printed, final_results))))"

text \<open>
  \<^verbatim>\<open>search_directory\<close> of the second file: the instance with its log, what the child
  processes printed, and the returned dictionary; the \<^verbatim>\<open>except\<close> clause returns \<^verbatim>\<open>{}\<close>.
\<close>

definition search_directory2 ::
  "nat list \<Rightarrow> environment \<Rightarrow> string \<Rightarrow> string \<Rightarrow> TextSearcher2 \<Rightarrow>
   TextSearcher2 \<times> log_event list \<times> result_dict" where
  "search_directory2 sched env directory file_pattern self =
     (case search_directory2_try sched env directory file_pattern self of
        Inr r \<Rightarrow> r
      | Inl e \<Rightarrow> (self\<lparr>logger2 := logger2 self @ [DirectoryError e]\<rparr>, [], []))"

section \<open>What a scan has to find\<close>

text \<open>
  Keyword \<open>k\<close> matches file \<open>f\<close>: the file can be read and the lowercased keyword occurs in
  its lowercased text.
\<close>

definition file_matches :: "environment \<Rightarrow> string \<Rightarrow> path \<Rightarrow> bool" where
  "file_matches env k f =
     (case read_text env f of
        Inl e \<Rightarrow> False
      | Inr text \<Rightarrow> sublist (str_lower env k) (str_lower env text))"

section \<open>A small environment\<close>

text \<open>
  Directory \<open>docs\<close> lists three files, of which \<open>c.txt\<close> cannot be read; directory \<open>more\<close>
  lists one file; listing any other directory fails. All texts and keywords of the examples
  are ASCII, where \<^verbatim>\<open>str.lower()\<close> turns the letters \<open>A\<close> to \<open>Z\<close> into \<open>a\<close> to \<open>z\<close> and keeps
  every other character. In \<open>edited_env\<close> the file \<open>b.txt\<close> has been rewritten.
\<close>

definition ascii_lower_char :: "char \<Rightarrow> char" where
  "ascii_lower_char c =
     (let n = (of_char c :: nat) in if 65 \<le> n \<and> n \<le> 90 then char_of (n + 32) else c)"

definition ascii_lower :: "string \<Rightarrow> string" where
  "ascii_lower s = map ascii_lower_char s"

definition example_env :: environment where
  "example_env =
     \<lparr>read_text = (\<lambda>p. if p = ''a.txt'' then Inr ''FooBar''
                       else if p = ''b.txt'' then Inr ''baz''
                       else Inl PermissionError),
      glob = (\<lambda>directory file_pattern.
                if directory = ''docs'' then Inr [''a.txt'', ''b.txt'', ''c.txt'']
                else if directory = ''more'' then Inr [''b.txt'']
                else Inl ValueError),
      str_lower = ascii_lower\<rparr>"

definition edited_env :: environment where
  "edited_env =
     example_env\<lparr>read_text := (\<lambda>p. if p = ''b.txt'' then Inr ''qux'' else read_text example_env p)\<rparr>"

section \<open>Properties of the dictionaries\<close>

lemma keys_dd_update: "fst ` set (dd_update k ps d) = insert k (fst ` set d)"
  by (induction k ps d rule: dd_update.induct) (simp_all add: insert_commute)

lemma map_of_dd_update:
  "map_of (dd_update k ps d) = (map_of d)(k \<mapsto> lookup d k \<union> ps)"
  by (induction d) (auto simp: lookup_def fun_eq_iff)

lemma lookup_dd_update:
  "lookup (dd_update k ps d) k' = (if k' = k then lookup d k \<union> ps else lookup d k')"
  by (simp add: lookup_def[of "dd_update k ps d"] map_of_dd_update) (simp add: lookup_def)

lemma distinct_dd_update:
  "distinct (map fst d) \<Longrightarrow> distinct (map fst (dd_update k ps d))"
  by (induction d) (auto simp: keys_dd_update)

lemma map_of_keys_lookup:
  "map_of d k = (if k \<in> fst ` set d then Some (lookup d k) else None)"
proof (cases "map_of d k")
  case None
  then show ?thesis by (simp add: map_of_eq_None_iff)
next
  case (Some s)
  then have "(k, s) \<in> set d" by (rule map_of_SomeD)
  then have "k \<in> fst ` set d" by force
  with Some show ?thesis by (simp add: lookup_def)
qed

lemma dict_eqI:
  "fst ` set d = fst ` set d' \<Longrightarrow> (\<And>k. lookup d k = lookup d' k) \<Longrightarrow> map_of d = map_of d'"
  by (rule ext) (simp add: map_of_keys_lookup)

lemma keys_merge_items:
  "fst ` set (merge_items l g) = fst ` set g \<union> fst ` set l"
  unfolding merge_items_def
  by (induction l arbitrary: g) (simp_all add: keys_dd_update split_beta)

lemma lookup_Cons: "lookup ((k', s) # d) k = (if k = k' then s else lookup d k)"
  by (simp add: lookup_def)

lemma lookup_notin: "k \<notin> fst ` set d \<Longrightarrow> lookup d k = {}"
  by (simp add: lookup_def map_of_eq_None_iff[THEN iffD2])

lemma lookup_merge_items:
  "distinct (map fst l) \<Longrightarrow> lookup (merge_items l g) k = lookup g k \<union> lookup l k"
  unfolding merge_items_def
proof (induction l arbitrary: g)
  case Nil
  show ?case by (simp add: lookup_def)
next
  case (Cons p l)
  obtain k' s where p: "p = (k', s)" by (cases p)
  from Cons.prems p have notin: "k' \<notin> fst ` set l" and dl: "distinct (map fst l)" by auto
  show ?case
    using Cons.IH[OF dl, of "dd_update k' s g"] lookup_notin[OF notin]
    by (auto simp: p lookup_dd_update lookup_Cons)
qed

lemma distinct_merge_items:
  "distinct (map fst g) \<Longrightarrow> distinct (map fst (merge_items l g))"
  unfolding merge_items_def
  by (induction l arbitrary: g) (auto simp: distinct_dd_update)

lemma lookup_mem: "distinct (map fst d) \<Longrightarrow> (k, s) \<in> set d \<Longrightarrow> lookup d k = s"
  by (simp add: lookup_def)

section \<open>Properties of a scan\<close>

lemma file_matches_iff:
  "file_matches env k f \<longleftrightarrow>
     (\<exists>text ps ss. read_text env f = Inr text \<and> str_lower env text = ps @ str_lower env k @ ss)"
  by (auto simp: file_matches_def sublist_def split: sum.splits)

lemma keys_scan_fold:
  "fst ` set (fold (\<lambda>keyword local_results.
             if sublist (lower keyword) content
             then dd_update keyword {filepath} local_results
             else local_results) kws acc)
   = fst ` set acc \<union> {k \<in> set kws. sublist (lower k) content}"
  by (induction kws arbitrary: acc) (auto simp: keys_dd_update)

lemma lookup_scan_fold:
  "lookup (fold (\<lambda>keyword local_results.
             if sublist (lower keyword) content
             then dd_update keyword {filepath} local_results
             else local_results) kws acc) k
   = lookup acc k \<union> (if k \<in> set kws \<and> sublist (lower k) content then {filepath} else {})"
  by (induction kws arbitrary: acc) (auto simp: lookup_dd_update)

lemma distinct_scan_fold:
  "distinct (map fst acc) \<Longrightarrow>
   distinct (map fst (fold (\<lambda>keyword local_results.
             if sublist (lower keyword) content
             then dd_update keyword {filepath} local_results
             else local_results) kws acc))"
  by (induction kws arbitrary: acc) (auto simp: distinct_dd_update)

lemma keys_scan_keywords:
  "fst ` set (scan_keywords lower kws filepath content) = {k \<in> set kws. sublist (lower k) content}"
  by (simp add: scan_keywords_def keys_scan_fold)

lemma lookup_scan_keywords:
  "lookup (scan_keywords lower kws filepath content) k =
     (if k \<in> set kws \<and> sublist (lower k) content then {filepath} else {})"
  by (simp add: scan_keywords_def lookup_scan_fold) (simp add: lookup_def)

lemma distinct_scan_keywords: "distinct (map fst (scan_keywords lower kws filepath content))"
  by (simp add: scan_keywords_def distinct_scan_fold)

lemma entries_scan_keywords:
  assumes "(k, s) \<in> set (scan_keywords lower kws filepath content)"
  shows "s = {filepath}"
proof -
  have "k \<in> fst ` set (scan_keywords lower kws filepath content)"
    using assms by force
  then have "k \<in> set kws \<and> sublist (lower k) content"
    by (simp add: keys_scan_keywords)
  moreover have "lookup (scan_keywords lower kws filepath content) k = s"
    using assms by (rule lookup_mem[OF distinct_scan_keywords])
  ultimately show ?thesis by (simp add: lookup_scan_keywords)
qed

lemma keys_search_file2:
  "fst ` set (snd (search_file2 env f kws)) = {k \<in> set kws. file_matches env k f}"
  by (simp add: search_file2_def file_matches_def keys_scan_keywords split: sum.splits)

lemma lookup_search_file2:
  "lookup (snd (search_file2 env f kws)) k =
     (if k \<in> set kws \<and> file_matches env k f then {f} else {})"
  by (simp add: search_file2_def file_matches_def lookup_scan_keywords split: sum.splits)
     (simp add: lookup_def)

lemma distinct_search_file2: "distinct (map fst (snd (search_file2 env f kws)))"
  by (simp add: search_file2_def distinct_scan_keywords split: sum.splits)

lemma entries_search_file2:
  "(k, s) \<in> set (snd (search_file2 env f kws)) \<Longrightarrow> s = {f}"
  by (auto simp: search_file2_def split: sum.splits dest: entries_scan_keywords)

text \<open>The first file's \<open>search_file\<close> computes the same dictionary and logs what the second prints.\<close>

lemma search_file1_eq:
  "search_file1 self env f =
     (self\<lparr>logger := logger self @ fst (search_file2 env f (keywords1 self))\<rparr>,
      snd (search_file2 env f (keywords1 self)))"
  by (simp add: search_file1_def search_file2_def split: sum.splits)

lemma process_file1_eq:
  "process_file1 env f self =
     self\<lparr>logger := logger self @ fst (search_file2 env f (keywords1 self)),
          results := merge_items (snd (search_file2 env f (keywords1 self))) (results self)\<rparr>"
  by (simp add: process_file1_def search_file1_eq)

lemma keywords1_process_file1: "keywords1 (process_file1 env f self) = keywords1 self"
  by (simp add: process_file1_eq)

lemma num_threads_process_file1: "num_threads (process_file1 env f self) = num_threads self"
  by (simp add: process_file1_eq)

lemma keys_process_file1:
  "fst ` set (results (process_file1 env f self)) =
     fst ` set (results self) \<union> {k \<in> set (keywords1 self). file_matches env k f}"
  by (simp add: process_file1_eq keys_merge_items keys_search_file2)

lemma lookup_process_file1:
  "lookup (results (process_file1 env f self)) k =
     lookup (results self) k \<union>
     (if k \<in> set (keywords1 self) \<and> file_matches env k f then {f} else {})"
  by (simp add: process_file1_eq lookup_merge_items distinct_search_file2 lookup_search_file2)

lemma keywords1_fold: "keywords1 (fold (process_file1 env) files self) = keywords1 self"
  by (induction files arbitrary: self) (simp_all add: keywords1_process_file1)

lemma num_threads_fold: "num_threads (fold (process_file1 env) files self) = num_threads self"
  by (induction files arbitrary: self) (simp_all add: num_threads_process_file1)

lemma keys_fold_process_file1:
  "fst ` set (results (fold (process_file1 env) files self)) =
     fst ` set (results self) \<union>
     {k \<in> set (keywords1 self). \<exists>f \<in> set files. file_matches env k f}"
  by (induction files arbitrary: self) (auto simp: keys_process_file1 keywords1_process_file1)

lemma lookup_fold_process_file1:
  "lookup (results (fold (process_file1 env) files self)) k =
     lookup (results self) k \<union>
     {f \<in> set files. k \<in> set (keywords1 self) \<and> file_matches env k f}"
  by (induction files arbitrary: self) (auto simp: lookup_process_file1 keywords1_process_file1)

section \<open>Properties of the workers\<close>

lemma snd_process_files2_fold:
  "snd (fold (\<lambda>filepath (printed, process_results).
             case search_file2 env filepath kws of
               (out, file_results) \<Rightarrow> (printed @ out, merge_items file_results process_results))
          files (p, acc))
   = fold (\<lambda>filepath. merge_items (snd (search_file2 env filepath kws))) files acc"
  by (induction files arbitrary: p acc) (simp_all add: split_beta)

lemma snd_process_files2:
  "snd (process_files2 env files kws) =
     fold (\<lambda>filepath. merge_items (snd (search_file2 env filepath kws))) files []"
  by (simp add: process_files2_def snd_process_files2_fold)

lemma keys_fold_merge_scan:
  "fst ` set (fold (\<lambda>filepath. merge_items (snd (search_file2 env filepath kws))) files acc) =
     fst ` set acc \<union> {k \<in> set kws. \<exists>f \<in> set files. file_matches env k f}"
  by (induction files arbitrary: acc) (auto simp: keys_merge_items keys_search_file2)

lemma lookup_fold_merge_scan:
  "lookup (fold (\<lambda>filepath. merge_items (snd (search_file2 env filepath kws))) files acc) k =
     lookup acc k \<union> {f \<in> set files. k \<in> set kws \<and> file_matches env k f}"
  by (induction files arbitrary: acc)
     (auto simp: lookup_merge_items distinct_search_file2 lookup_search_file2)

lemma distinct_fold_merge_scan:
  "distinct (map fst acc) \<Longrightarrow>
   distinct (map fst (fold (\<lambda>filepath. merge_items (snd (search_file2 env filepath kws))) files acc))"
  by (induction files arbitrary: acc) (simp_all add: distinct_merge_items)

lemma keys_process_files2:
  "fst ` set (snd (process_files2 env files kws)) =
     {k \<in> set kws. \<exists>f \<in> set files. file_matches env k f}"
  by (simp add: snd_process_files2 keys_fold_merge_scan)

lemma lookup_process_files2:
  "lookup (snd (process_files2 env files kws)) k =
     {f \<in> set files. k \<in> set kws \<and> file_matches env k f}"
  by (simp add: snd_process_files2 lookup_fold_merge_scan) (simp add: lookup_def)

lemma distinct_process_files2: "distinct (map fst (snd (process_files2 env files kws)))"
  by (simp add: snd_process_files2 distinct_fold_merge_scan)

lemma snd_collect2_fold:
  "snd (fold (\<lambda>(out, process_results) (printed, final_results).
             (printed @ out, merge_items process_results final_results))
          arrivals (p, acc))
   = fold (\<lambda>a. merge_items (snd a)) arrivals acc"
  by (induction arrivals arbitrary: p acc) (simp_all add: split_beta)

lemma snd_collect2: "snd (collect2 arrivals) = fold (\<lambda>a. merge_items (snd a)) arrivals []"
  by (simp add: collect2_def snd_collect2_fold)

lemma keys_fold_merge:
  "fst ` set (fold (\<lambda>a. merge_items (snd a)) arrivals acc) =
     fst ` set acc \<union> (\<Union>a \<in> set arrivals. fst ` set (snd a))"
  by (induction arrivals arbitrary: acc) (auto simp: keys_merge_items)

lemma lookup_fold_merge:
  "\<forall>a \<in> set arrivals. distinct (map fst (snd a)) \<Longrightarrow>
   lookup (fold (\<lambda>a. merge_items (snd a)) arrivals acc) k =
     lookup acc k \<union> (\<Union>a \<in> set arrivals. lookup (snd a) k)"
  by (induction arrivals arbitrary: acc) (auto simp: lookup_merge_items)

subsection \<open>Schedules\<close>

lemma mset_concat_update:
  assumes "w < length chunks" and "chunks ! w = x # rest"
  shows "mset (concat (chunks[w := rest])) + {#x#} = mset (concat chunks)"
proof -
  have "chunks = take w chunks @ (x # rest) # drop (Suc w) chunks"
    using assms by (metis id_take_nth_drop)
  moreover have "chunks[w := rest] = take w chunks @ rest # drop (Suc w) chunks"
    using assms(1) by (rule upd_conv_take_nth_drop)
  ultimately have "mset (concat chunks) =
      mset (concat (take w chunks)) + mset (x # rest) + mset (concat (drop (Suc w) chunks))"
    and "mset (concat (chunks[w := rest])) =
      mset (concat (take w chunks)) + mset rest + mset (concat (drop (Suc w) chunks))"
    by (metis concat.simps(2) concat_append mset_append add.assoc)+
  then show ?thesis by simp
qed

lemma mset_interleave: "mset (interleave sched chunks) = mset (concat chunks)"
proof (induction sched arbitrary: chunks)
  case Nil
  show ?case by simp
next
  case (Cons w sched)
  show ?case
  proof (cases "w < length chunks")
    case False
    then show ?thesis by (simp add: Cons.IH)
  next
    case True
    show ?thesis
    proof (cases "chunks ! w")
      case Nil
      with True show ?thesis by (simp add: Cons.IH)
    next
      case (Cons x rest)
      with True mset_concat_update[OF True Cons] show ?thesis
        by (simp add: Cons.IH)
    qed
  qed
qed

lemma set_interleave: "set (interleave sched chunks) = \<Union> (set ` set chunks)"
  using mset_interleave[of sched chunks] by (metis set_concat set_mset_mset)

lemma mset_queue_order: "mset (queue_order sched msgs) = mset msgs"
proof -
  have "concat (map (\<lambda>m. [m]) msgs) = msgs" by (induction msgs) simp_all
  then show ?thesis by (simp add: queue_order_def mset_interleave)
qed

lemma set_queue_order: "set (queue_order sched msgs) = set msgs"
  using mset_queue_order[of sched msgs] by (metis set_mset_mset)

section \<open>Properties of the partition\<close>

lemma py_range_closed:
  "0 < s \<Longrightarrow> py_range i n s = map (\<lambda>j. i + j * s) [0..<(n - i + s - 1) div s]"
proof (induction i n s rule: py_range.induct)
  case (1 i n s)
  show ?case
  proof (cases "i < n")
    case False
    with "1.prems" show ?thesis by (simp add: py_range.simps[of i n s])
  next
    case True
    define m where "m = (n - (i + s) + s - 1) div s"
    have cnt: "(n - i + s - 1) div s = Suc m"
    proof (cases "n - i \<le> s")
      case True
      with \<open>i < n\<close> \<open>0 < s\<close> have "(n - i + s - 1) div s = 1"
        by (intro div_nat_eqI) auto
      moreover from True \<open>0 < s\<close> have "m = 0" by (simp add: m_def)
      ultimately show ?thesis by simp
    next
      case False
      then have "n - i + s - 1 = (n - (i + s) + s - 1) + s" by simp
      then have "(n - i + s - 1) div s = ((n - (i + s) + s - 1) + s) div s"
        by (simp only:)
      also have "\<dots> = (n - (i + s) + s - 1) div s + 1"
        using \<open>0 < s\<close> by (intro div_add_self2) simp
      finally show ?thesis by (simp only: m_def Suc_eq_plus1)
    qed
    have "py_range i n s = i # py_range (i + s) n s"
      using True \<open>0 < s\<close> by (simp add: py_range.simps[of i n s])
    also have "py_range (i + s) n s = map (\<lambda>j. i + s + j * s) [0..<m]"
      using "1.IH" True \<open>0 < s\<close> by (simp add: m_def)
    also have "i # map (\<lambda>j. i + s + j * s) [0..<m] = map (\<lambda>j. i + j * s) [0..<Suc m]"
      by (simp add: upt_conv_Cons map_Suc_upt[symmetric] del: upt_Suc)
    finally show ?thesis by (simp only: cnt)
  qed
qed

lemma concat_slices:
  "0 < s \<Longrightarrow> concat (map (\<lambda>i. slice xs i (i + s)) (py_range i (length xs) s)) = drop i xs"
proof (induction i "length xs" s rule: py_range.induct)
  case (1 i s)
  show ?case
  proof (cases "i < length xs")
    case False
    then show ?thesis by (simp add: py_range.simps[of i "length xs" s])
  next
    case True
    have "take s (drop i xs) @ drop (i + s) xs = drop i xs"
      by (metis add.commute append_take_drop_id drop_drop)
    with 1 True show ?thesis by (simp add: slice_def py_range.simps[of i "length xs" s])
  qed
qed

lemma file_chunks_pos:
  assumes "1 \<le> w"
  shows "file_chunks xs w =
           Inr (map (\<lambda>i. slice xs i (i + (length xs div nat w + 1)))
                    (py_range 0 (length xs) (length xs div nat w + 1)))"
proof -
  have "int (length xs) div w = int (length xs div nat w)"
    using assms by (simp add: zdiv_int)
  then have "nat (int (length xs) div w + 1) = length xs div nat w + 1"
    and "0 < int (length xs) div w + 1"
    by simp_all
  with assms show ?thesis
    by (simp add: file_chunks_def files_per_thread_def range0_def)
qed

lemma chunk_count_le:
  assumes "0 < w"
  shows "(n + (n div w + 1) - 1) div (n div w + 1) \<le> (w::nat)"
proof -
  have "n < w * (n div w + 1)"
    using assms by (metis Suc_eq_plus1 dividend_less_times_div mult.commute mult_Suc_right add.commute)
  then have "n + (n div w + 1) - 1 < (w + 1) * (n div w + 1)" by simp
  then have "(n + (n div w + 1) - 1) div (n div w + 1) < w + 1"
    by (simp add: less_mult_imp_div_less)
  then show ?thesis by simp
qed

lemma ceiling_nat_div:
  assumes "0 < s"
  shows "\<lceil>real n / real s\<rceil> = int ((n + s - 1) div s)"
proof (rule ceiling_unique)
  define q where "q = (n + s - 1) div s"
  have le: "q * s \<le> n + s - 1" unfolding q_def by simp
  have lt: "n + s - 1 < (q + 1) * s"
    unfolding q_def using assms by (metis Suc_eq_plus1 dividend_less_div_times mult.commute add.commute mult_Suc)
  from lt assms have "n \<le> q * s" by simp
  then have "real n \<le> real q * real s" by (metis of_nat_le_iff of_nat_mult)
  then show "real n / real s \<le> of_int (int ((n + s - 1) div s))"
    using assms by (simp add: q_def divide_le_eq)
  from le assms have "q * s < n + s" by simp
  then have "real q * real s < real n + real s" by (metis of_nat_less_iff of_nat_mult of_nat_add)
  then have "(real q - 1) * real s < real n" by (simp add: algebra_simps)
  then show "of_int (int ((n + s - 1) div s)) - 1 < real n / real s"
    using assms by (simp add: q_def less_divide_eq)
qed

lemma slice_positions:
  "slice xs i (i + s) = map (\<lambda>p. xs ! p) [i..<min (i + s) (length xs)]"
proof (rule nth_equalityI)
  show "length (slice xs i (i + s)) = length (map (\<lambda>p. xs ! p) [i..<min (i + s) (length xs)])"
    by (simp add: slice_def min_def) arith
next
  fix p assume "p < length (slice xs i (i + s))"
  then have "p < s" and "i + p < length xs" by (auto simp: slice_def)
  then show "slice xs i (i + s) ! p = map (\<lambda>p. xs ! p) [i..<min (i + s) (length xs)] ! p"
    by (simp add: slice_def)
qed


lemma length_py_range: "0 < s \<Longrightarrow> length (py_range 0 n s) = (n + s - 1) div s"
  by (simp add: py_range_closed)

lemma nth_py_range:
  "0 < s \<Longrightarrow> j < length (py_range 0 n s) \<Longrightarrow> py_range 0 n s ! j = j * s \<and> j * s < n"
proof -
  assume s: "0 < s" and j: "j < length (py_range 0 n s)"
  from j s have lt: "j < (n + s - 1) div s" by (simp add: length_py_range)
  then have "Suc j \<le> (n + s - 1) div s" by simp
  then have "Suc j * s \<le> (n + s - 1) div s * s" by (rule mult_le_mono1)
  also have "\<dots> \<le> n + s - 1" by simp
  finally have "Suc j * s \<le> n + s - 1" .
  with s have "j * s < n" by simp
  moreover from lt s have "py_range 0 n s ! j = j * s" by (simp add: py_range_closed)
  ultimately show ?thesis by simp
qed

lemma file_chunks_nth:
  assumes "1 \<le> w" and "file_chunks files w = Inr chunks" and "j < length chunks"
  shows "chunks ! j =
           map (\<lambda>p. files ! p)
               [j * (length files div nat w + 1) ..<
                min (j * (length files div nat w + 1) + (length files div nat w + 1)) (length files)]
         \<and> j * (length files div nat w + 1) < length files"
proof -
  define s where "s = length files div nat w + 1"
  have s: "0 < s" by (simp add: s_def)
  from assms(1,2) have chunks: "chunks = map (\<lambda>i. slice files i (i + s)) (py_range 0 (length files) s)"
    by (simp add: file_chunks_pos s_def)
  with assms(3) have j: "j < length (py_range 0 (length files) s)" by simp
  from nth_py_range[OF s j] chunks j show ?thesis
    unfolding s_def[symmetric] by (simp add: slice_positions)
qed

lemma chunks_disjoint:
  assumes w: "1 \<le> w" and fc: "file_chunks files w = Inr chunks"
    and d: "distinct files" and ij: "i < j" "j < length chunks"
  shows "set (chunks ! i) \<inter> set (chunks ! j) = {}"
proof -
  define s where "s = length files div nat w + 1"
  define n where "n = length files"
  from ij have i: "i < length chunks" by simp
  have ci: "chunks ! i = map (\<lambda>p. files ! p) [i * s..<min (i * s + s) n]"
    using file_chunks_nth[OF w fc i] by (simp add: s_def n_def)
  have cj: "chunks ! j = map (\<lambda>p. files ! p) [j * s..<min (j * s + s) n]"
    using file_chunks_nth[OF w fc ij(2)] by (simp add: s_def n_def)
  have "Suc i * s \<le> j * s" using ij(1) by (intro mult_le_mono1) simp
  then have le: "i * s + s \<le> j * s" by simp
  show ?thesis
  proof (rule ccontr)
    assume "set (chunks ! i) \<inter> set (chunks ! j) \<noteq> {}"
    then obtain x where "x \<in> set (chunks ! i)" and "x \<in> set (chunks ! j)" by auto
    then obtain p q where p: "i * s \<le> p" "p < i * s + s" "p < n" "x = files ! p"
      and q: "j * s \<le> q" "q < n" "x = files ! q"
      by (auto simp: ci cj)
    from d p(3,4) q(2,3) have "p = q"
      by (simp add: n_def nth_eq_iff_index_eq)
    with p(2) q(1) le show False by simp
  qed
qed

text \<open>
  C4. For every file list, the empty one included, and every number of workers \<open>w \<ge> 1\<close> the
  partitioning step succeeds; the concatenation of the chunks in order is the file list
  itself, so no file is omitted or repeated and the order is kept; chunk \<open>j\<close> holds exactly
  the files at the positions from \<open>j * s\<close> up to, excluding, \<open>min (j * s + s) (length files)\<close>,
  where \<open>s = length files div w + 1\<close>, a contiguous and non-empty range, and these ranges do
  not overlap; when the paths of the list are distinct, as those of a directory listing are,
  two different chunks have no path in common.
\<close>

theorem file_chunks_partition:
  assumes "1 \<le> w"
  shows "\<exists>chunks. file_chunks files w = Inr chunks \<and> concat chunks = files \<and>
           (\<forall>j < length chunks.
              chunks ! j =
                map (\<lambda>p. files ! p)
                    [j * (length files div nat w + 1) ..<
                     min (j * (length files div nat w + 1) + (length files div nat w + 1))
                         (length files)] \<and>
              j * (length files div nat w + 1) < length files) \<and>
           (distinct files \<longrightarrow>
              (\<forall>i j. i < j \<and> j < length chunks \<longrightarrow> set (chunks ! i) \<inter> set (chunks ! j) = {}))"
proof -
  obtain chunks where fc: "file_chunks files w = Inr chunks"
    using assms by (simp add: file_chunks_pos)
  have "concat chunks = files"
    using fc assms concat_slices[of "length files div nat w + 1" files 0]
    by (simp add: file_chunks_pos)
  show ?thesis
  proof (intro exI[of _ chunks] conjI)
    show "file_chunks files w = Inr chunks" by (rule fc)
    show "concat chunks = files" by fact
    show "\<forall>j < length chunks.
              chunks ! j =
                map (\<lambda>p. files ! p)
                    [j * (length files div nat w + 1) ..<
                     min (j * (length files div nat w + 1) + (length files div nat w + 1))
                         (length files)] \<and>
              j * (length files div nat w + 1) < length files"
      using file_chunks_nth[OF assms fc] by blast
    show "distinct files \<longrightarrow>
              (\<forall>i j. i < j \<and> j < length chunks \<longrightarrow> set (chunks ! i) \<inter> set (chunks ! j) = {})"
      using chunks_disjoint[OF assms fc] by blast
  qed
qed

theorem file_chunks_partition_witness:
  "(1::int) \<le> 2 \<and> distinct [''a.txt'', ''b.txt'', ''c.txt''] \<and>
   (\<exists>chunks. file_chunks [''a.txt'', ''b.txt'', ''c.txt''] 2 = Inr chunks \<and>
      chunks = [[''a.txt'', ''b.txt''], [''c.txt'']] \<and>
      concat chunks = [''a.txt'', ''b.txt'', ''c.txt''] \<and>
      set (chunks ! 0) \<inter> set (chunks ! 1) = {})"
proof -
  let ?files = "[''a.txt'', ''b.txt'', ''c.txt'']"
  have h: "(1::int) \<le> 2" by simp
  have d: "distinct ?files" by simp
  have e: "file_chunks ?files 2 = Inr [[''a.txt'', ''b.txt''], [''c.txt'']]"
    by (simp add: file_chunks_def files_per_thread_def range0_def slice_def py_range.simps)
  from file_chunks_partition[OF h, of ?files] obtain chunks where
    c: "file_chunks ?files 2 = Inr chunks" "concat chunks = ?files"
       "distinct ?files \<longrightarrow>
          (\<forall>i j. i < j \<and> j < length chunks \<longrightarrow> set (chunks ! i) \<inter> set (chunks ! j) = {})"
    by blast
  from c(1) e have eq: "chunks = [[''a.txt'', ''b.txt''], [''c.txt'']]" by simp
  from c(3) d have "(0::nat) < 1 \<and> 1 < length chunks \<longrightarrow> set (chunks ! 0) \<inter> set (chunks ! 1) = {}"
    by blast
  with eq have "set (chunks ! 0) \<inter> set (chunks ! 1) = {}" by simp
  with h d c(1,2) eq show ?thesis by blast
qed

text \<open>
  C10. For every file list of length \<open>n\<close> and every number of workers \<open>w \<ge> 1\<close> the chunk size
  is \<open>n div w + 1\<close>, the partitioning step yields \<open>\<lceil>n / chunk size\<rceil>\<close> chunks, and that number
  is at most \<open>w\<close>.
\<close>

theorem chunk_count_bounded:
  assumes "1 \<le> w"
  shows "\<exists>per chunks. files_per_thread (length files) w = Inr per \<and>
           per = int (length files) div w + 1 \<and>
           file_chunks files w = Inr chunks \<and>
           int (length chunks) = \<lceil>real (length files) / real_of_int per\<rceil> \<and>
           int (length chunks) \<le> w"
proof -
  define s where "s = length files div nat w + 1"
  have s: "0 < s" by (simp add: s_def)
  have per: "int (length files) div w + 1 = int s"
    using assms by (simp add: s_def zdiv_int)
  have fp: "files_per_thread (length files) w = Inr (int s)"
    using assms per by (simp add: files_per_thread_def)
  have fc: "file_chunks files w =
              Inr (map (\<lambda>i. slice files i (i + s)) (py_range 0 (length files) s))"
    using file_chunks_pos[OF assms, of files] unfolding s_def .
  have len: "length (map (\<lambda>i. slice files i (i + s)) (py_range 0 (length files) s))
               = (length files + s - 1) div s"
    using s by (simp add: length_py_range)
  have "(length files + s - 1) div s \<le> nat w"
    unfolding s_def using chunk_count_le[of "nat w" "length files"] assms by simp
  then have le: "int ((length files + s - 1) div s) \<le> w" using assms by linarith
  have ce: "\<lceil>real (length files) / real s\<rceil> = int ((length files + s - 1) div s)"
    using s by (rule ceiling_nat_div)
  show ?thesis
  proof (intro exI conjI)
    show "files_per_thread (length files) w = Inr (int s)" by (rule fp)
    show "int s = int (length files) div w + 1" by (simp only: per)
    show "file_chunks files w =
            Inr (map (\<lambda>i. slice files i (i + s)) (py_range 0 (length files) s))" by (rule fc)
    show "int (length (map (\<lambda>i. slice files i (i + s)) (py_range 0 (length files) s)))
            = \<lceil>real (length files) / real_of_int (int s)\<rceil>"
      by (simp only: len ce of_int_of_nat_eq)
    show "int (length (map (\<lambda>i. slice files i (i + s)) (py_range 0 (length files) s))) \<le> w"
      by (simp only: len le)
  qed
qed

theorem chunk_count_bounded_witness:
  "(1::int) \<le> 4 \<and>
   (\<exists>per chunks. files_per_thread (length [1, 2, 3, 4, 5, 6, 7, 8 :: nat]) 4 = Inr per \<and> per = 3 \<and>
      file_chunks [1, 2, 3, 4, 5, 6, 7, 8 :: nat] 4 = Inr chunks \<and>
      int (length chunks) = \<lceil>real (length [1, 2, 3, 4, 5, 6, 7, 8 :: nat]) / real_of_int per\<rceil> \<and>
      int (length chunks) \<le> 4)"
proof -
  have h: "(1::int) \<le> 4" by simp
  from chunk_count_bounded[OF h, of "[1, 2, 3, 4, 5, 6, 7, 8 :: nat]"] h show ?thesis
    by simp
qed

text \<open>
  C5. Eight files for four workers: the chunk size is \<open>8 div 4 + 1 = 3\<close>, not
  \<open>\<lceil>8 / 4\<rceil> = 2\<close>, and the partitioning step produces three chunks of sizes 3, 3 and 2,
  so that the fourth worker gets no chunk although there are at least as many files as
  workers.
\<close>

theorem file_chunks_eight_files_four_workers:
  "files_per_thread (length [''f1'', ''f2'', ''f3'', ''f4'', ''f5'', ''f6'', ''f7'', ''f8'']) 4 = Inr 3 \<and>
   \<lceil>real (length [''f1'', ''f2'', ''f3'', ''f4'', ''f5'', ''f6'', ''f7'', ''f8'']) / 4\<rceil> = (2::int) \<and>
   file_chunks [''f1'', ''f2'', ''f3'', ''f4'', ''f5'', ''f6'', ''f7'', ''f8''] 4 =
     Inr [[''f1'', ''f2'', ''f3''], [''f4'', ''f5'', ''f6''], [''f7'', ''f8'']]"
  by (simp add: file_chunks_def files_per_thread_def range0_def slice_def py_range.simps)

section \<open>Properties of a whole search\<close>

lemma concat_file_chunks:
  assumes "1 \<le> w" and "file_chunks files w = Inr chunks"
  shows "concat chunks = files"
  using assms concat_slices[of "length files div nat w + 1" files 0]
  by (simp add: file_chunks_pos)

lemma set_file_chunks:
  assumes "1 \<le> w" and "file_chunks files w = Inr chunks"
  shows "\<Union> (set ` set chunks) = set files"
  using concat_file_chunks[OF assms] by (metis set_concat)

lemma file_chunks_succeeds: "1 \<le> w \<Longrightarrow> \<exists>chunks. file_chunks files w = Inr chunks"
  by (simp add: file_chunks_pos)

subsection \<open>text-searcher-1.py\<close>

lemma returned_is_results1:
  "snd (search_directory1 sched env directory file_pattern self) =
     results (fst (search_directory1 sched env directory file_pattern self))"
  by (simp add: search_directory1_def Let_def split: sum.splits)

lemma search_directory1_run:
  assumes "1 \<le> num_threads self" and "glob env directory file_pattern = Inr files"
    and "files \<noteq> []"
  shows "\<exists>order. set order = set files \<and>
           snd (search_directory1 sched env directory file_pattern self) =
             results (fold (process_file1 env) order self)"
proof -
  obtain chunks where fc: "file_chunks files (num_threads self) = Inr chunks"
    using file_chunks_succeeds[OF assms(1)] by blast
  have "set (interleave sched chunks) = set files"
    by (simp add: set_interleave set_file_chunks[OF assms(1) fc])
  moreover have "snd (search_directory1 sched env directory file_pattern self) =
      results (fold (process_file1 env) (interleave sched chunks) self)"
    using assms fc
    by (simp add: search_directory1_def search_directory1_try_def executor_map1_def Let_def)
  ultimately show ?thesis by blast
qed

lemma lookup_search_directory1:
  assumes "1 \<le> num_threads self" and "glob env directory file_pattern = Inr files"
  shows "lookup (snd (search_directory1 sched env directory file_pattern self)) k =
           lookup (results self) k \<union>
           {f \<in> set files. k \<in> set (keywords1 self) \<and> file_matches env k f}"
proof (cases "files = []")
  case True
  with assms show ?thesis
    by (simp add: search_directory1_def search_directory1_try_def)
next
  case False
  from search_directory1_run[OF assms False, of sched] obtain order where
    "set order = set files"
    "snd (search_directory1 sched env directory file_pattern self) =
       results (fold (process_file1 env) order self)"
    by blast
  then show ?thesis by (simp add: lookup_fold_process_file1)
qed

lemma keys_search_directory1:
  assumes "1 \<le> num_threads self" and "glob env directory file_pattern = Inr files"
  shows "fst ` set (snd (search_directory1 sched env directory file_pattern self)) =
           fst ` set (results self) \<union>
           {k \<in> set (keywords1 self). \<exists>f \<in> set files. file_matches env k f}"
proof (cases "files = []")
  case True
  with assms show ?thesis
    by (simp add: search_directory1_def search_directory1_try_def)
next
  case False
  from search_directory1_run[OF assms False, of sched] obtain order where
    "set order = set files"
    "snd (search_directory1 sched env directory file_pattern self) =
       results (fold (process_file1 env) order self)"
    by blast
  then show ?thesis by (simp add: keys_fold_process_file1)
qed

subsection \<open>text-searcher-2.py\<close>

lemma search_directory2_run:
  assumes "1 \<le> num_processes self" and "glob env directory file_pattern = Inr files"
    and "files \<noteq> []"
  shows "\<exists>chunks arrivals. \<Union> (set ` set chunks) = set files \<and>
           set arrivals = (\<lambda>chunk. process_files2 env chunk (keywords2 self)) ` set chunks \<and>
           snd (snd (search_directory2 sched env directory file_pattern self)) =
             fold (\<lambda>a. merge_items (snd a)) arrivals []"
proof -
  obtain chunks where fc: "file_chunks files (num_processes self) = Inr chunks"
    using file_chunks_succeeds[OF assms(1)] by blast
  define arrivals where
    "arrivals = queue_order sched (map (\<lambda>chunk. process_files2 env chunk (keywords2 self)) chunks)"
  have "set arrivals = (\<lambda>chunk. process_files2 env chunk (keywords2 self)) ` set chunks"
    by (simp add: arrivals_def set_queue_order)
  moreover have "snd (snd (search_directory2 sched env directory file_pattern self)) =
      snd (collect2 arrivals)"
    using assms fc
    by (simp add: search_directory2_def search_directory2_try_def arrivals_def split_beta)
  ultimately show ?thesis
    using set_file_chunks[OF assms(1) fc] by (auto simp only: snd_collect2)
qed

lemma lookup_search_directory2:
  assumes "1 \<le> num_processes self" and "glob env directory file_pattern = Inr files"
  shows "lookup (snd (snd (search_directory2 sched env directory file_pattern self))) k =
           {f \<in> set files. k \<in> set (keywords2 self) \<and> file_matches env k f}"
proof (cases "files = []")
  case True
  with assms show ?thesis
    by (simp add: search_directory2_def search_directory2_try_def lookup_def)
next
  case False
  from search_directory2_run[OF assms False, of sched] obtain chunks arrivals where
    c: "\<Union> (set ` set chunks) = set files"
    and a: "set arrivals = (\<lambda>chunk. process_files2 env chunk (keywords2 self)) ` set chunks"
    and r: "snd (snd (search_directory2 sched env directory file_pattern self)) =
       fold (\<lambda>a. merge_items (snd a)) arrivals []"
    by blast
  from a have d: "\<forall>a \<in> set arrivals. distinct (map fst (snd a))"
    by (auto simp: distinct_process_files2)
  have "lookup (fold (\<lambda>a. merge_items (snd a)) arrivals []) k =
      (\<Union>chunk \<in> set chunks. {f \<in> set chunk. k \<in> set (keywords2 self) \<and> file_matches env k f})"
    by (simp add: lookup_fold_merge[OF d] a lookup_process_files2) (simp add: lookup_def)
  also have "\<dots> = {f \<in> \<Union> (set ` set chunks). k \<in> set (keywords2 self) \<and> file_matches env k f}"
    by auto
  finally show ?thesis by (simp only: r c)
qed

lemma keys_search_directory2:
  assumes "1 \<le> num_processes self" and "glob env directory file_pattern = Inr files"
  shows "fst ` set (snd (snd (search_directory2 sched env directory file_pattern self))) =
           {k \<in> set (keywords2 self). \<exists>f \<in> set files. file_matches env k f}"
proof (cases "files = []")
  case True
  with assms show ?thesis
    by (simp add: search_directory2_def search_directory2_try_def)
next
  case False
  from search_directory2_run[OF assms False, of sched] obtain chunks arrivals where
    c: "\<Union> (set ` set chunks) = set files"
    and a: "set arrivals = (\<lambda>chunk. process_files2 env chunk (keywords2 self)) ` set chunks"
    and r: "snd (snd (search_directory2 sched env directory file_pattern self)) =
       fold (\<lambda>a. merge_items (snd a)) arrivals []"
    by blast
  have "fst ` set (fold (\<lambda>a. merge_items (snd a)) arrivals []) =
      (\<Union>chunk \<in> set chunks. {k \<in> set (keywords2 self). \<exists>f \<in> set chunk. file_matches env k f})"
    by (simp add: keys_fold_merge a keys_process_files2)
  also have "\<dots> = {k \<in> set (keywords2 self). \<exists>f \<in> \<Union> (set ` set chunks). file_matches env k f}"
    by auto
  finally show ?thesis by (simp only: r c)
qed

subsection \<open>Every outcome of a search\<close>

lemma search_directory1_any:
  "\<exists>order. snd (search_directory1 sched env directory file_pattern self) =
             results (fold (process_file1 env) order self) \<and>
           (\<forall>f \<in> set order. \<exists>files. glob env directory file_pattern = Inr files \<and> f \<in> set files)"
proof (cases "glob env directory file_pattern")
  case (Inl e)
  then have "snd (search_directory1 sched env directory file_pattern self) =
      results (fold (process_file1 env) [] self)"
    by (simp add: search_directory1_def search_directory1_try_def)
  then show ?thesis by (intro exI[of _ "[]"]) simp
next
  case (Inr files)
  show ?thesis
  proof (cases "files \<noteq> [] \<and> 1 \<le> num_threads self")
    case True
    with search_directory1_run[of self env directory file_pattern files sched] Inr
    show ?thesis by auto
  next
    case False
    with Inr have "snd (search_directory1 sched env directory file_pattern self) =
        results (fold (process_file1 env) [] self)"
      by (auto simp: search_directory1_def search_directory1_try_def split: sum.splits)
    then show ?thesis by (intro exI[of _ "[]"]) simp
  qed
qed

lemma search_directory2_any:
  "\<exists>chunks arrivals.
     set arrivals = (\<lambda>chunk. process_files2 env chunk (keywords2 self)) ` set chunks \<and>
     snd (snd (search_directory2 sched env directory file_pattern self)) =
       fold (\<lambda>a. merge_items (snd a)) arrivals [] \<and>
     (\<forall>f \<in> \<Union> (set ` set chunks).
        \<exists>files. glob env directory file_pattern = Inr files \<and> f \<in> set files)"
proof (cases "glob env directory file_pattern")
  case (Inl e)
  then have "snd (snd (search_directory2 sched env directory file_pattern self)) = []"
    by (simp add: search_directory2_def search_directory2_try_def)
  then show ?thesis by (intro exI[of _ "[]"]) simp
next
  case (Inr files)
  show ?thesis
  proof (cases "files = []")
    case True
    with Inr have "snd (snd (search_directory2 sched env directory file_pattern self)) = []"
      by (simp add: search_directory2_def search_directory2_try_def)
    then show ?thesis by (intro exI[of _ "[]"]) simp
  next
    case False
    show ?thesis
    proof (cases "file_chunks files (num_processes self)")
      case (Inl e)
      with Inr False have "snd (snd (search_directory2 sched env directory file_pattern self)) = []"
        by (simp add: search_directory2_def search_directory2_try_def)
      then show ?thesis by (intro exI[of _ "[]"]) simp
    next
      case chunks: (Inr chunks)
      define arrivals where
        "arrivals = queue_order sched (map (\<lambda>chunk. process_files2 env chunk (keywords2 self)) chunks)"
      have a: "set arrivals = (\<lambda>chunk. process_files2 env chunk (keywords2 self)) ` set chunks"
        by (simp add: arrivals_def set_queue_order)
      have r: "snd (snd (search_directory2 sched env directory file_pattern self)) =
          fold (\<lambda>a. merge_items (snd a)) arrivals []"
        using Inr False chunks
        by (simp add: search_directory2_def search_directory2_try_def arrivals_def split_beta
            snd_collect2)
      have sub: "\<Union> (set ` set chunks) \<subseteq> set files"
      proof
        fix f assume "f \<in> \<Union> (set ` set chunks)"
        then obtain c where c: "c \<in> set chunks" "f \<in> set c" by auto
        from chunks obtain per starts where
          "chunks = map (\<lambda>i. slice files i (i + nat per)) starts"
          by (auto simp: file_chunks_def split: sum.splits)
        with c obtain i where "f \<in> set (slice files i (i + nat per))" by auto
        then show "f \<in> set files"
          by (auto simp: slice_def dest: in_set_takeD in_set_dropD)
      qed
      from a r sub Inr show ?thesis by (intro exI[of _ chunks] exI[of _ arrivals]) auto
    qed
  qed
qed

section \<open>Results of a search\<close>

text \<open>
  C1, as the code has it. Let the listing of the directory succeed with the file list
  \<open>files\<close>, let \<open>f\<close> be one of these files and \<open>k\<close> one of the keywords, and let the number of
  workers be at least 1. In the queue-based variant \<open>f\<close> is under key \<open>k\<close> of the returned
  mapping if and only if \<open>f\<close> could be read and the lowercased \<open>k\<close> occurs as a substring of
  the lowercased text of \<open>f\<close>. In the lock-based variant \<open>f\<close> is under key \<open>k\<close> if and only if
  it was stored under \<open>k\<close> before the call or it matches in that sense; when nothing is
  stored, as on a freshly constructed searcher, if and only if it matches. This holds under
  every schedule of the workers.
\<close>

theorem search_directory_finds_matches:
  assumes "glob env directory file_pattern = Inr files" and "f \<in> set files"
    and "1 \<le> num_threads self" and "k \<in> set (keywords1 self)"
    and "1 \<le> num_processes self2" and "k \<in> set (keywords2 self2)"
  shows "(f \<in> lookup (snd (search_directory1 sched env directory file_pattern self)) k \<longleftrightarrow>
            f \<in> lookup (results self) k \<or>
            (\<exists>text ps ss. read_text env f = Inr text \<and>
                           str_lower env text = ps @ str_lower env k @ ss)) \<and>
         (results self = [] \<longrightarrow>
            (f \<in> lookup (snd (search_directory1 sched env directory file_pattern self)) k \<longleftrightarrow>
               (\<exists>text ps ss. read_text env f = Inr text \<and>
                              str_lower env text = ps @ str_lower env k @ ss))) \<and>
         results (init1 kws n) = [] \<and>
         (f \<in> lookup (snd (snd (search_directory2 sched' env directory file_pattern self2))) k \<longleftrightarrow>
            (\<exists>text ps ss. read_text env f = Inr text \<and>
                           str_lower env text = ps @ str_lower env k @ ss))"
proof -
  have one: "lookup (snd (search_directory1 sched env directory file_pattern self)) k =
      lookup (results self) k \<union> {f \<in> set files. file_matches env k f}"
    using assms(4) by (simp add: lookup_search_directory1[OF assms(3) assms(1)])
  have two: "lookup (snd (snd (search_directory2 sched' env directory file_pattern self2))) k =
      {f \<in> set files. file_matches env k f}"
    using assms(6) by (simp add: lookup_search_directory2[OF assms(5) assms(1)])
  have empty: "lookup [] k = {}" by (simp add: lookup_def)
  show ?thesis
  proof (intro conjI impI)
    show "f \<in> lookup (snd (search_directory1 sched env directory file_pattern self)) k \<longleftrightarrow>
            f \<in> lookup (results self) k \<or>
            (\<exists>text ps ss. read_text env f = Inr text \<and>
                           str_lower env text = ps @ str_lower env k @ ss)"
      using assms(2) by (simp add: one file_matches_iff)
    show "f \<in> lookup (snd (search_directory1 sched env directory file_pattern self)) k \<longleftrightarrow>
               (\<exists>text ps ss. read_text env f = Inr text \<and>
                              str_lower env text = ps @ str_lower env k @ ss)"
      if "results self = []"
      using assms(2) that by (simp add: one empty file_matches_iff)
    show "results (init1 kws n) = []" by (simp add: init1_def)
    show "f \<in> lookup (snd (snd (search_directory2 sched' env directory file_pattern self2))) k \<longleftrightarrow>
            (\<exists>text ps ss. read_text env f = Inr text \<and>
                           str_lower env text = ps @ str_lower env k @ ss)"
      using assms(2) by (simp add: two file_matches_iff)
  qed
qed

text \<open>
  C1, as the claim states it, fails for the lock-based variant. A searcher for the keyword
  \<open>BA\<close> searches directory \<open>docs\<close>, where \<open>b.txt\<close> matches; then \<open>b.txt\<close> is rewritten and the
  same searcher searches directory \<open>more\<close>, which lists \<open>b.txt\<close>: the file no longer matches
  and is still returned under \<open>BA\<close>.
\<close>

theorem reused_searcher_returns_stale_match:
  "glob edited_env ''more'' ''*.txt'' = Inr [''b.txt''] \<and>
   read_text edited_env ''b.txt'' = Inr ''qux'' \<and>
   \<not> sublist (str_lower edited_env ''BA'') (str_lower edited_env ''qux'') \<and>
   \<not> file_matches edited_env ''BA'' ''b.txt'' \<and>
   ''b.txt'' \<in> lookup (snd (search_directory1 [] edited_env ''more'' ''*.txt''
          (fst (search_directory1 [] example_env ''docs'' ''*.txt'' (init1 [''BA''] 2))))) ''BA''"
  by code_simp

theorem search_directory_finds_matches_witness:
  "glob example_env ''docs'' ''*.txt'' = Inr [''a.txt'', ''b.txt'', ''c.txt''] \<and>
   ''a.txt'' \<in> set [''a.txt'', ''b.txt'', ''c.txt''] \<and>
   1 \<le> num_threads (init1 [''Foo'', ''BA'', ''zzz''] 2) \<and>
   ''BA'' \<in> set (keywords1 (init1 [''Foo'', ''BA'', ''zzz''] 2)) \<and>
   1 \<le> num_processes (init2 [''Foo'', ''BA'', ''zzz''] None 8) \<and>
   ''BA'' \<in> set (keywords2 (init2 [''Foo'', ''BA'', ''zzz''] None 8)) \<and>
   results (init1 [''Foo'', ''BA'', ''zzz''] 2) = [] \<and>
   read_text example_env ''a.txt'' = Inr ''FooBar'' \<and>
   str_lower example_env ''FooBar'' = ''foo'' @ str_lower example_env ''BA'' @ ''r'' \<and>
   ''a.txt'' \<in> lookup (snd (search_directory1 [1, 0] example_env ''docs'' ''*.txt''
                              (init1 [''Foo'', ''BA'', ''zzz''] 2))) ''BA'' \<and>
   ''a.txt'' \<in> lookup (snd (snd (search_directory2 [1, 0] example_env ''docs'' ''*.txt''
                                   (init2 [''Foo'', ''BA'', ''zzz''] None 8)))) ''BA''"
proof -
  let ?self = "init1 [''Foo'', ''BA'', ''zzz''] 2"
  let ?self2 = "init2 [''Foo'', ''BA'', ''zzz''] None 8"
  have h1: "glob example_env ''docs'' ''*.txt'' = Inr [''a.txt'', ''b.txt'', ''c.txt'']"
    by (simp add: example_env_def)
  have h2: "''a.txt'' \<in> set [''a.txt'', ''b.txt'', ''c.txt'']" by simp
  have h3: "1 \<le> num_threads ?self" by (simp add: init1_def)
  have h4: "''BA'' \<in> set (keywords1 ?self)" by (simp add: init1_def)
  have h5: "1 \<le> num_processes ?self2" by (simp add: init2_def)
  have h6: "''BA'' \<in> set (keywords2 ?self2)" by (simp add: init2_def)
  have e: "results ?self = []" by (simp add: init1_def)
  have r: "read_text example_env ''a.txt'' = Inr ''FooBar''" by (simp add: example_env_def)
  have l: "str_lower example_env ''FooBar'' = ''foo'' @ str_lower example_env ''BA'' @ ''r''"
    by code_simp
  from r l have ex: "\<exists>text ps ss. read_text example_env ''a.txt'' = Inr text \<and>
      str_lower example_env text = ps @ str_lower example_env ''BA'' @ ss" by blast
  note t = search_directory_finds_matches[OF h1 h2 h3 h4 h5 h6, of "[1, 0]" "[]" 1 "[1, 0]"]
  from t e ex
  have a: "''a.txt'' \<in> lookup (snd (search_directory1 [1, 0] example_env ''docs'' ''*.txt'' ?self)) ''BA''"
    by blast
  from t ex
  have b: "''a.txt'' \<in> lookup (snd (snd (search_directory2 [1, 0] example_env ''docs'' ''*.txt'' ?self2))) ''BA''"
    by blast
  from h1 h2 h3 h4 h5 h6 e r l a b show ?thesis by (intro conjI)
qed

text \<open>
  C2. For every keyword list, file system and directory, and every number \<open>n \<ge> 1\<close> of
  workers, a search with one worker returns the same mapping from keywords to sets of
  files as a search with \<open>n\<close> workers, whatever the schedules of the two runs; in the
  lock-based variant the two runs start from the same stored results.
\<close>

theorem one_worker_same_result:
  assumes "1 \<le> n"
  shows "map_of (snd (search_directory1 sched1 env directory file_pattern (self\<lparr>num_threads := 1\<rparr>))) =
         map_of (snd (search_directory1 sched_n env directory file_pattern (self\<lparr>num_threads := n\<rparr>))) \<and>
         map_of (snd (snd (search_directory2 sched1 env directory file_pattern
                             (self2\<lparr>num_processes := 1\<rparr>)))) =
         map_of (snd (snd (search_directory2 sched_n env directory file_pattern
                             (self2\<lparr>num_processes := n\<rparr>))))"
proof (cases "glob env directory file_pattern")
  case (Inl e)
  then show ?thesis
    by (simp add: search_directory1_def search_directory1_try_def
        search_directory2_def search_directory2_try_def)
next
  case (Inr files)
  have one: "1 \<le> num_threads (self\<lparr>num_threads := 1\<rparr>)"
    and many: "1 \<le> num_threads (self\<lparr>num_threads := n\<rparr>)"
    and one2: "1 \<le> num_processes (self2\<lparr>num_processes := 1\<rparr>)"
    and many2: "1 \<le> num_processes (self2\<lparr>num_processes := n\<rparr>)"
    using assms by simp_all
  have "map_of (snd (search_directory1 sched1 env directory file_pattern (self\<lparr>num_threads := 1\<rparr>))) =
      map_of (snd (search_directory1 sched_n env directory file_pattern (self\<lparr>num_threads := n\<rparr>)))"
    by (rule dict_eqI)
       (simp_all add: keys_search_directory1[OF one Inr] keys_search_directory1[OF many Inr]
          lookup_search_directory1[OF one Inr] lookup_search_directory1[OF many Inr])
  moreover have "map_of (snd (snd (search_directory2 sched1 env directory file_pattern
                             (self2\<lparr>num_processes := 1\<rparr>)))) =
         map_of (snd (snd (search_directory2 sched_n env directory file_pattern
                             (self2\<lparr>num_processes := n\<rparr>))))"
    by (rule dict_eqI)
       (simp_all add: keys_search_directory2[OF one2 Inr] keys_search_directory2[OF many2 Inr]
          lookup_search_directory2[OF one2 Inr] lookup_search_directory2[OF many2 Inr])
  ultimately show ?thesis by (rule conjI)
qed

theorem one_worker_same_result_witness:
  "(1::int) \<le> 4 \<and>
   map_of (snd (search_directory1 [] example_env ''docs'' ''*.txt''
                  ((init1 [''Foo'', ''BA'', ''zzz''] 4)\<lparr>num_threads := 1\<rparr>))) =
   map_of (snd (search_directory1 [1, 0, 2] example_env ''docs'' ''*.txt''
                  ((init1 [''Foo'', ''BA'', ''zzz''] 4)\<lparr>num_threads := 4\<rparr>))) \<and>
   map_of (snd (snd (search_directory2 [] example_env ''docs'' ''*.txt''
                  ((init2 [''Foo'', ''BA'', ''zzz''] None 8)\<lparr>num_processes := 1\<rparr>)))) =
   map_of (snd (snd (search_directory2 [1, 0, 2] example_env ''docs'' ''*.txt''
                  ((init2 [''Foo'', ''BA'', ''zzz''] None 8)\<lparr>num_processes := 4\<rparr>)))) \<and>
   snd (search_directory1 [1, 0, 2] example_env ''docs'' ''*.txt''
                  ((init1 [''Foo'', ''BA'', ''zzz''] 4)\<lparr>num_threads := 4\<rparr>)) =
     [(''BA'', {''b.txt'', ''a.txt''}), (''Foo'', {''a.txt''})] \<and>
   snd (search_directory1 [] example_env ''docs'' ''*.txt''
                  ((init1 [''Foo'', ''BA'', ''zzz''] 4)\<lparr>num_threads := 1\<rparr>)) =
     [(''Foo'', {''a.txt''}), (''BA'', {''a.txt'', ''b.txt''})]"
proof -
  have h: "(1::int) \<le> 4" by simp
  have a: "snd (search_directory1 [1, 0, 2] example_env ''docs'' ''*.txt''
                  ((init1 [''Foo'', ''BA'', ''zzz''] 4)\<lparr>num_threads := 4\<rparr>)) =
     [(''BA'', {''b.txt'', ''a.txt''}), (''Foo'', {''a.txt''})]"
    by code_simp
  have b: "snd (search_directory1 [] example_env ''docs'' ''*.txt''
                  ((init1 [''Foo'', ''BA'', ''zzz''] 4)\<lparr>num_threads := 1\<rparr>)) =
     [(''Foo'', {''a.txt''}), (''BA'', {''a.txt'', ''b.txt''})]"
    by code_simp
  from one_worker_same_result[OF h, of "[]" example_env "''docs''" "''*.txt''"
      "init1 [''Foo'', ''BA'', ''zzz''] 4" "[1, 0, 2]" "init2 [''Foo'', ''BA'', ''zzz''] None 8"]
    h a b
  show ?thesis by (intro conjI) (erule conjunct1 conjunct2 | assumption)+
qed

subsection \<open>A file that cannot be read\<close>







text \<open>
  C7. If listing the directory fails with \<open>e\<close>, \<open>search_directory\<close> returns normally: it logs
  the error and returns the results stored so far in the first file, the empty dictionary
  in the second; nothing else of the instance changes.
\<close>

theorem search_directory_listing_error:
  assumes "glob env directory file_pattern = Inl e"
  shows "search_directory1 sched env directory file_pattern self =
           (self\<lparr>logger := logger self @ [DirectoryError e]\<rparr>, results self) \<and>
         search_directory2 sched env directory file_pattern self2 =
           (self2\<lparr>logger2 := logger2 self2 @ [DirectoryError e]\<rparr>, [], [])"
  using assms
  by (simp add: search_directory1_def search_directory1_try_def
      search_directory2_def search_directory2_try_def)

theorem search_directory_listing_error_witness:
  "glob example_env ''nowhere'' ''*.txt'' = Inl ValueError \<and>
   search_directory1 [] example_env ''nowhere'' ''*.txt'' (init1 [''BA''] 4) =
     (\<lparr>keywords1 = [''BA''], num_threads = 4, results = [],
       logger = [DirectoryError ValueError]\<rparr>, []) \<and>
   search_directory2 [] example_env ''nowhere'' ''*.txt'' (init2 [''BA''] None 8) =
     (\<lparr>keywords2 = [''BA''], num_processes = 8, logger2 = [DirectoryError ValueError]\<rparr>, [], [])"
proof -
  have h: "glob example_env ''nowhere'' ''*.txt'' = Inl ValueError"
    by (simp add: example_env_def)
  from search_directory_listing_error[OF h, of "[]" "init1 [''BA''] 4" "init2 [''BA''] None 8"] h
  show ?thesis by (simp add: init1_def init2_def)
qed

subsection \<open>Merging in any order\<close>

lemma lookup_merge_items_entries:
  "lookup (merge_items l g) k = lookup g k \<union> \<Union> {s. (k, s) \<in> set l}"
  unfolding merge_items_def
proof (induction l arbitrary: g)
  case Nil
  show ?case by simp
next
  case (Cons p l)
  obtain k' s where p: "p = (k', s)" by (cases p)
  have "\<Union> {s'. (k, s') \<in> set (p # l)} =
      (if k = k' then s else {}) \<union> \<Union> {s'. (k, s') \<in> set l}"
    by (auto simp: p)
  then show ?case
    by (simp add: Cons.IH p lookup_dd_update Un_assoc)
qed

lemma lookup_fold_merge_items:
  "lookup (fold merge_items locals g) k =
     lookup g k \<union> \<Union> {s. \<exists>l \<in> set locals. (k, s) \<in> set l}"
proof (induction locals arbitrary: g)
  case Nil
  show ?case by simp
next
  case (Cons l locals)
  have "\<Union> {s. \<exists>l' \<in> set (l # locals). (k, s) \<in> set l'} =
      \<Union> {s. (k, s) \<in> set l} \<union> \<Union> {s. \<exists>l' \<in> set locals. (k, s) \<in> set l'}"
    by auto
  then show ?case
    by (simp add: Cons.IH lookup_merge_items_entries Un_assoc)
qed

lemma keys_fold_merge_items:
  "fst ` set (fold merge_items locals g) = fst ` set g \<union> (\<Union>l \<in> set locals. fst ` set l)"
  by (induction locals arbitrary: g) (auto simp: keys_merge_items)

lemma distinct_fold_merge_items:
  "distinct (map fst g) \<Longrightarrow> distinct (map fst (fold merge_items locals g))"
  by (induction locals arbitrary: g) (simp_all add: distinct_merge_items)

lemma fold_merge_snd:
  "fold (\<lambda>a. merge_items (snd a)) arrivals g = fold merge_items (map snd arrivals) g"
  by (induction arrivals arbitrary: g) simp_all

lemma fst_collect2_fold:
  "fst (fold (\<lambda>(out, process_results) (printed, final_results).
             (printed @ out, merge_items process_results final_results))
          arrivals (p, acc))
   = p @ concat (map fst arrivals)"
  by (induction arrivals arbitrary: p acc) (simp_all add: split_beta)

lemma fst_collect2: "fst (collect2 arrivals) = concat (map fst arrivals)"
  by (simp add: collect2_def fst_collect2_fold)

lemma results_fold_process_file1:
  "results (fold (process_file1 env) files self) =
     fold merge_items (map (\<lambda>f. snd (search_file2 env f (keywords1 self))) files) (results self)"
proof (induction files arbitrary: self)
  case Nil
  show ?case by simp
next
  case (Cons f files)
  have "results (process_file1 env f self) =
      merge_items (snd (search_file2 env f (keywords1 self))) (results self)"
    by (simp add: process_file1_eq)
  then show ?case
    by (simp add: Cons.IH keywords1_process_file1)
qed

text \<open>
  C8. Merging local dictionaries into the global one is a key-wise union of sets. Merging a
  sequence of local results in any order gives the same mapping, also for the dictionaries
  taken from the queue; for dictionaries, merging is commutative and associative; after
  merging, the keys are those of the global dictionary and of all local ones, the paths
  under a key are exactly those it had in the global dictionary or in some local one, and
  starting from the empty dictionary every keyword is a key at most once. The loop of
  \<^verbatim>\<open>process_files\<close> in the first file merges the local results of its files into the stored
  results in this way, and the loop over the queue in the second file merges all arrivals
  into the empty dictionary in this way: its keys are the keys of all arrivals, the paths
  under a key are exactly those some arrival has under it, each keyword is a key once, and
  what the processes printed is kept in order.
\<close>

theorem merge_order_irrelevant:
  assumes "mset locals' = mset locals" and "mset arrivals' = mset arrivals"
    and "distinct (map fst a)" and "distinct (map fst b)" and "distinct (map fst c)"
  shows "map_of (fold merge_items locals' g) = map_of (fold merge_items locals g) \<and>
         map_of (snd (collect2 arrivals')) = map_of (snd (collect2 arrivals)) \<and>
         map_of (merge_items a b) = map_of (merge_items b a) \<and>
         map_of (merge_items (merge_items c b) a) = map_of (merge_items c (merge_items b a)) \<and>
         fst ` set (fold merge_items locals g) = fst ` set g \<union> (\<Union>l \<in> set locals. fst ` set l) \<and>
         (\<forall>k. lookup (fold merge_items locals g) k =
                lookup g k \<union> \<Union> {s. \<exists>l \<in> set locals. (k, s) \<in> set l}) \<and>
         distinct (map fst (fold merge_items locals [])) \<and>
         snd (collect2 arrivals) = fold merge_items (map snd arrivals) [] \<and>
         fst (collect2 arrivals) = concat (map fst arrivals) \<and>
         fst ` set (snd (collect2 arrivals)) = (\<Union>x \<in> set arrivals. fst ` set (snd x)) \<and>
         (\<forall>k. lookup (snd (collect2 arrivals)) k =
                \<Union> {s. \<exists>x \<in> set arrivals. (k, s) \<in> set (snd x)}) \<and>
         distinct (map fst (snd (collect2 arrivals))) \<and>
         results (process_files1 env files self) =
           fold merge_items (map (\<lambda>f. snd (search_file1 self env f)) files) (results self)"
proof (intro conjI allI)
  have s: "set locals' = set locals" using assms(1) by (metis set_mset_mset)
  show "map_of (fold merge_items locals' g) = map_of (fold merge_items locals g)"
    by (rule dict_eqI) (simp_all add: keys_fold_merge_items lookup_fold_merge_items s)
  have "mset (map snd arrivals') = mset (map snd arrivals)"
    using assms(2) by (metis mset_map)
  then have s': "set (map snd arrivals') = set (map snd arrivals)" by (metis set_mset_mset)
  show "map_of (snd (collect2 arrivals')) = map_of (snd (collect2 arrivals))"
    unfolding snd_collect2 fold_merge_snd
    by (rule dict_eqI) (simp_all only: keys_fold_merge_items lookup_fold_merge_items s')
  show "map_of (merge_items a b) = map_of (merge_items b a)"
    by (rule dict_eqI)
       (auto simp: keys_merge_items lookup_merge_items assms(3,4))
  have dcb: "distinct (map fst (merge_items c b))"
    using assms(4) by (rule distinct_merge_items)
  show "map_of (merge_items (merge_items c b) a) = map_of (merge_items c (merge_items b a))"
    by (rule dict_eqI)
       (auto simp: keys_merge_items lookup_merge_items assms(4,5) dcb)
  show "fst ` set (fold merge_items locals g) = fst ` set g \<union> (\<Union>l \<in> set locals. fst ` set l)"
    by (rule keys_fold_merge_items)
  show "lookup (fold merge_items locals g) k =
          lookup g k \<union> \<Union> {s. \<exists>l \<in> set locals. (k, s) \<in> set l}" for k
    by (rule lookup_fold_merge_items)
  show "distinct (map fst (fold merge_items locals []))"
    by (rule distinct_fold_merge_items) simp
  show link: "snd (collect2 arrivals) = fold merge_items (map snd arrivals) []"
    by (simp only: snd_collect2 fold_merge_snd)
  show "fst (collect2 arrivals) = concat (map fst arrivals)"
    by (rule fst_collect2)
  show "fst ` set (snd (collect2 arrivals)) = (\<Union>x \<in> set arrivals. fst ` set (snd x))"
    by (simp add: link keys_fold_merge_items)
  show "lookup (snd (collect2 arrivals)) k =
          \<Union> {s. \<exists>x \<in> set arrivals. (k, s) \<in> set (snd x)}" for k
  proof -
    have "{s. \<exists>l \<in> set (map snd arrivals). (k, s) \<in> set l} =
        {s. \<exists>x \<in> set arrivals. (k, s) \<in> set (snd x)}"
      by auto
    then show ?thesis
      by (simp add: link lookup_fold_merge_items) (simp add: lookup_def)
  qed
  show "distinct (map fst (snd (collect2 arrivals)))"
    unfolding link by (rule distinct_fold_merge_items) simp
  show "results (process_files1 env files self) =
           fold merge_items (map (\<lambda>f. snd (search_file1 self env f)) files) (results self)"
    by (simp add: process_files1_def results_fold_process_file1 search_file1_eq)
qed

theorem merge_order_irrelevant_witness:
  "mset [[(''x'', {''b.txt''})], [(''y'', {''a.txt''}), (''x'', {''a.txt''})]] =
     mset [[(''y'', {''a.txt''}), (''x'', {''a.txt''})], [(''x'', {''b.txt''})]] \<and>
   mset [([FileError ''c.txt'' PermissionError], [(''y'', {''a.txt''}), (''x'', {''a.txt''})]),
         ([], [(''x'', {''b.txt''})])] =
     mset [([], [(''x'', {''b.txt''})]),
           ([FileError ''c.txt'' PermissionError], [(''y'', {''a.txt''}), (''x'', {''a.txt''})])] \<and>
   distinct (map fst [(''y'', {''a.txt''}), (''x'', {''a.txt''})]) \<and>
   distinct (map fst [(''x'', {''b.txt''})]) \<and>
   fold merge_items [[(''x'', {''b.txt''})], [(''y'', {''a.txt''}), (''x'', {''a.txt''})]] [] =
     [(''x'', {''a.txt'', ''b.txt''}), (''y'', {''a.txt''})] \<and>
   fold merge_items [[(''y'', {''a.txt''}), (''x'', {''a.txt''})], [(''x'', {''b.txt''})]] [] =
     [(''y'', {''a.txt''}), (''x'', {''a.txt'', ''b.txt''})] \<and>
   map_of [(''x'', {''a.txt'', ''b.txt''}), (''y'', {''a.txt''})] =
     map_of [(''y'', {''a.txt''}), (''x'', {''a.txt'', ''b.txt''})] \<and>
   map_of (merge_items [(''y'', {''a.txt''}), (''x'', {''a.txt''})] [(''x'', {''b.txt''})]) =
     map_of (merge_items [(''x'', {''b.txt''})] [(''y'', {''a.txt''}), (''x'', {''a.txt''})]) \<and>
   snd (collect2 [([], [(''x'', {''b.txt''})]),
                  ([FileError ''c.txt'' PermissionError], [(''y'', {''a.txt''}), (''x'', {''a.txt''})])]) =
     [(''x'', {''a.txt'', ''b.txt''}), (''y'', {''a.txt''})] \<and>
   fst (collect2 [([], [(''x'', {''b.txt''})]),
                  ([FileError ''c.txt'' PermissionError], [(''y'', {''a.txt''}), (''x'', {''a.txt''})])]) =
     [FileError ''c.txt'' PermissionError]"
proof -
  let ?l1 = "[(''x'', {''b.txt''})]"
  let ?l2 = "[(''y'', {''a.txt''}), (''x'', {''a.txt''})]"
  let ?a1 = "([] :: log_event list, ?l1)"
  let ?a2 = "([FileError ''c.txt'' PermissionError], ?l2)"
  have h1: "mset [?l1, ?l2] = mset [?l2, ?l1]" by (simp add: add.commute)
  have h2: "mset [?a2, ?a1] = mset [?a1, ?a2]" by (simp add: add.commute)
  have h3: "distinct (map fst ?l2)" by simp
  have h4: "distinct (map fst ?l1)" by simp
  have v1: "fold merge_items [?l1, ?l2] [] = [(''x'', {''a.txt'', ''b.txt''}), (''y'', {''a.txt''})]"
    by (simp add: merge_items_def insert_commute)
  have v2: "fold merge_items [?l2, ?l1] [] = [(''y'', {''a.txt''}), (''x'', {''a.txt'', ''b.txt''})]"
    by (simp add: merge_items_def insert_commute)
  note t = merge_order_irrelevant[OF h1 h2 h3 h4 h4, of "[]" example_env "[]" "init1 [] 1"]
  from t have "map_of (fold merge_items [?l1, ?l2] []) = map_of (fold merge_items [?l2, ?l1] [])"
    by (rule conjunct1)
  then have m: "map_of [(''x'', {''a.txt'', ''b.txt''}), (''y'', {''a.txt''})] =
     map_of [(''y'', {''a.txt''}), (''x'', {''a.txt'', ''b.txt''})]"
    by (simp only: v1 v2)
  from t have c: "map_of (merge_items ?l2 ?l1) = map_of (merge_items ?l1 ?l2)"
    by (elim conjE)
  from t have "snd (collect2 [?a1, ?a2]) = fold merge_items (map snd [?a1, ?a2]) []"
    by (elim conjE)
  then have q: "snd (collect2 [?a1, ?a2]) = [(''x'', {''a.txt'', ''b.txt''}), (''y'', {''a.txt''})]"
    using v1 by simp
  from t have "fst (collect2 [?a1, ?a2]) = concat (map fst [?a1, ?a2])"
    by (elim conjE)
  then have p: "fst (collect2 [?a1, ?a2]) = [FileError ''c.txt'' PermissionError]"
    by simp
  from h1 h2 h3 h4 v1 v2 m c q p show ?thesis by (intro conjI)
qed

subsection \<open>No empty entries\<close>

lemma nonempty_dd_update:
  "ps \<noteq> {} \<Longrightarrow> \<forall>p \<in> set d. snd p \<noteq> {} \<Longrightarrow> \<forall>p \<in> set (dd_update k ps d). snd p \<noteq> {}"
  by (induction k ps d rule: dd_update.induct) auto

lemma nonempty_merge_items:
  "\<forall>p \<in> set l. snd p \<noteq> {} \<Longrightarrow> \<forall>p \<in> set g. snd p \<noteq> {} \<Longrightarrow>
   \<forall>p \<in> set (merge_items l g). snd p \<noteq> {}"
  unfolding merge_items_def
proof (induction l arbitrary: g)
  case Nil
  then show ?case by simp
next
  case (Cons p l)
  obtain k s where p: "p = (k, s)" by (cases p)
  with Cons.prems have "s \<noteq> {}" by simp
  then have "\<forall>q \<in> set (dd_update k s g). snd q \<noteq> {}"
    using Cons.prems(2) by (rule nonempty_dd_update)
  with Cons.IH[of "dd_update k s g"] Cons.prems(1) show ?case by (simp add: p)
qed

lemma nonempty_search_file2: "\<forall>p \<in> set (snd (search_file2 env f kws)). snd p \<noteq> {}"
proof
  fix p assume "p \<in> set (snd (search_file2 env f kws))"
  then have "(fst p, snd p) \<in> set (snd (search_file2 env f kws))" by simp
  then have "snd p = {f}" by (rule entries_search_file2)
  then show "snd p \<noteq> {}" by simp
qed

lemma nonempty_fold_process_file1:
  "\<forall>p \<in> set (results self). snd p \<noteq> {} \<Longrightarrow>
   \<forall>p \<in> set (results (fold (process_file1 env) files self)). snd p \<noteq> {}"
proof (induction files arbitrary: self)
  case Nil
  then show ?case by simp
next
  case (Cons f files)
  have "\<forall>p \<in> set (results (process_file1 env f self)). snd p \<noteq> {}"
    using nonempty_merge_items[OF nonempty_search_file2 Cons.prems]
    by (simp add: process_file1_eq)
  then show ?case using Cons.IH by simp
qed

lemma nonempty_fold_merge_scan:
  "\<forall>p \<in> set acc. snd p \<noteq> {} \<Longrightarrow>
   \<forall>p \<in> set (fold (\<lambda>filepath. merge_items (snd (search_file2 env filepath kws))) files acc).
      snd p \<noteq> {}"
proof (induction files arbitrary: acc)
  case Nil
  then show ?case by simp
next
  case (Cons f files)
  have "\<forall>p \<in> set (merge_items (snd (search_file2 env f kws)) acc). snd p \<noteq> {}"
    by (rule nonempty_merge_items[OF nonempty_search_file2 Cons.prems])
  then show ?case using Cons.IH by simp
qed

lemma nonempty_process_files2: "\<forall>p \<in> set (snd (process_files2 env files kws)). snd p \<noteq> {}"
  unfolding snd_process_files2 by (rule nonempty_fold_merge_scan) simp

lemma nonempty_fold_merge:
  "\<forall>a \<in> set arrivals. \<forall>p \<in> set (snd a). snd p \<noteq> {} \<Longrightarrow> \<forall>p \<in> set acc. snd p \<noteq> {} \<Longrightarrow>
   \<forall>p \<in> set (fold (\<lambda>a. merge_items (snd a)) arrivals acc). snd p \<noteq> {}"
proof (induction arrivals arbitrary: acc)
  case Nil
  then show ?case by simp
next
  case (Cons a arrivals)
  from Cons.prems have "\<forall>p \<in> set (merge_items (snd a) acc). snd p \<noteq> {}"
    by (intro nonempty_merge_items) simp_all
  with Cons.IH[of "merge_items (snd a) acc"] Cons.prems(1) show ?case by simp
qed

lemma nonempty_search_directory1:
  assumes "\<forall>p \<in> set (results self). snd p \<noteq> {}"
  shows "\<forall>p \<in> set (snd (search_directory1 sched env directory file_pattern self)). snd p \<noteq> {}"
proof -
  obtain order where "snd (search_directory1 sched env directory file_pattern self) =
             results (fold (process_file1 env) order self)"
    using search_directory1_any by blast
  then show ?thesis using nonempty_fold_process_file1[OF assms] by simp
qed

lemma nonempty_search_directory2:
  "\<forall>p \<in> set (snd (snd (search_directory2 sched env directory file_pattern self))). snd p \<noteq> {}"
proof -
  obtain chunks arrivals where
    a: "set arrivals = (\<lambda>chunk. process_files2 env chunk (keywords2 self)) ` set chunks"
    and r: "snd (snd (search_directory2 sched env directory file_pattern self)) =
       fold (\<lambda>a. merge_items (snd a)) arrivals []"
    using search_directory2_any[of env self sched directory file_pattern] by blast
  from a have "\<forall>a \<in> set arrivals. \<forall>p \<in> set (snd a). snd p \<noteq> {}"
    using nonempty_process_files2 by auto
  then show ?thesis unfolding r by (rule nonempty_fold_merge) simp
qed

text \<open>
  C9. The keys of the mapping returned by \<open>search_file\<close> are exactly the keywords that match
  the file, and each is associated with the set holding just that file; keywords without a
  match are absent. No entry of the dictionary returned by \<open>search_directory\<close> has the empty
  set: in the queue-based variant always, in the lock-based variant on a freshly constructed
  searcher and whenever the stored results had no empty entry before the call.
\<close>

theorem no_empty_entries:
  "fst ` set (snd (search_file1 self env f)) = {k \<in> set (keywords1 self). file_matches env k f} \<and>
   fst ` set (snd (search_file2 env f kws)) = {k \<in> set kws. file_matches env k f} \<and>
   (\<forall>p \<in> set (snd (search_file1 self env f)). snd p = {f}) \<and>
   (\<forall>p \<in> set (snd (search_file2 env f kws)). snd p = {f}) \<and>
   (\<forall>p \<in> set (snd (search_directory1 sched env directory file_pattern (init1 kws n))). snd p \<noteq> {}) \<and>
   (\<forall>p \<in> set (snd (snd (search_directory2 sched env directory file_pattern self2))). snd p \<noteq> {}) \<and>
   ((\<forall>p \<in> set (results self). snd p \<noteq> {}) \<longrightarrow>
    (\<forall>p \<in> set (snd (search_directory1 sched env directory file_pattern self)). snd p \<noteq> {}))"
proof (intro conjI impI)
  show "fst ` set (snd (search_file1 self env f)) = {k \<in> set (keywords1 self). file_matches env k f}"
    by (simp add: search_file1_eq keys_search_file2)
  show "fst ` set (snd (search_file2 env f kws)) = {k \<in> set kws. file_matches env k f}"
    by (rule keys_search_file2)
  show s2: "\<forall>p \<in> set (snd (search_file2 env f kws)). snd p = {f}" for kws
    using entries_search_file2[of _ _ env f kws] by (metis prod.collapse)
  show "\<forall>p \<in> set (snd (search_file1 self env f)). snd p = {f}"
    using s2 by (simp add: search_file1_eq)
  show "\<forall>p \<in> set (snd (search_directory1 sched env directory file_pattern (init1 kws n))). snd p \<noteq> {}"
    by (rule nonempty_search_directory1) (simp add: init1_def)
  show "\<forall>p \<in> set (snd (snd (search_directory2 sched env directory file_pattern self2))). snd p \<noteq> {}"
    by (rule nonempty_search_directory2)
  show "\<forall>p \<in> set (snd (search_directory1 sched env directory file_pattern self)). snd p \<noteq> {}"
    if "\<forall>p \<in> set (results self). snd p \<noteq> {}"
    using that by (rule nonempty_search_directory1)
qed

theorem no_empty_entries_witness:
  "snd (search_file2 example_env ''a.txt'' [''Foo'', ''BA'', ''zzz'']) =
     [(''Foo'', {''a.txt''}), (''BA'', {''a.txt''})] \<and>
   {k \<in> set [''Foo'', ''BA'', ''zzz'']. file_matches example_env k ''a.txt''} = {''Foo'', ''BA''} \<and>
   snd (search_directory1 [] example_env ''docs'' ''*.txt'' (init1 [''Foo'', ''BA'', ''zzz''] 2)) =
     [(''Foo'', {''a.txt''}), (''BA'', {''a.txt'', ''b.txt''})] \<and>
   {} \<notin> snd ` set (snd (search_directory1 [] example_env ''docs'' ''*.txt''
                            (init1 [''Foo'', ''BA'', ''zzz''] 2))) \<and>
   {} \<notin> snd ` set (snd (search_file2 example_env ''a.txt'' [''Foo'', ''BA'', ''zzz'']))"
proof -
  have v: "snd (search_file2 example_env ''a.txt'' [''Foo'', ''BA'', ''zzz'']) =
     [(''Foo'', {''a.txt''}), (''BA'', {''a.txt''})]"
    by code_simp
  have w: "snd (search_directory1 [] example_env ''docs'' ''*.txt'' (init1 [''Foo'', ''BA'', ''zzz''] 2)) =
     [(''Foo'', {''a.txt''}), (''BA'', {''a.txt'', ''b.txt''})]"
    by code_simp
  note t = no_empty_entries[of "init1 [''Foo'', ''BA'', ''zzz''] 2" example_env "''a.txt''"
      "[''Foo'', ''BA'', ''zzz'']" "[]" "''docs''" "''*.txt''" 2 "init2 [] None 1"]
  from t have "fst ` set (snd (search_file2 example_env ''a.txt'' [''Foo'', ''BA'', ''zzz''])) =
      {k \<in> set [''Foo'', ''BA'', ''zzz'']. file_matches example_env k ''a.txt''}"
    by (elim conjE)
  then have k: "{k \<in> set [''Foo'', ''BA'', ''zzz'']. file_matches example_env k ''a.txt''} = {''Foo'', ''BA''}"
    by (simp only: v) simp
  from t have "\<forall>p \<in> set (snd (search_file2 example_env ''a.txt'' [''Foo'', ''BA'', ''zzz''])). snd p = {''a.txt''}"
    by (elim conjE)
  then have e: "{} \<notin> snd ` set (snd (search_file2 example_env ''a.txt'' [''Foo'', ''BA'', ''zzz'']))"
    by fastforce
  from t have "\<forall>p \<in> set (snd (search_directory1 [] example_env ''docs'' ''*.txt''
      (init1 [''Foo'', ''BA'', ''zzz''] 2))). snd p \<noteq> {}"
    by (elim conjE)
  then have d: "{} \<notin> snd ` set (snd (search_directory1 [] example_env ''docs'' ''*.txt''
      (init1 [''Foo'', ''BA'', ''zzz''] 2)))"
    by fastforce
  from v k w d e show ?thesis by (intro conjI)
qed

subsection \<open>Results kept between calls\<close>

lemma lookup_search_directory2_any:
  assumes "f \<in> lookup (snd (snd (search_directory2 sched env directory file_pattern self))) k"
  shows "\<exists>files. glob env directory file_pattern = Inr files \<and> f \<in> set files"
proof -
  obtain chunks arrivals where
    a: "set arrivals = (\<lambda>chunk. process_files2 env chunk (keywords2 self)) ` set chunks"
    and r: "snd (snd (search_directory2 sched env directory file_pattern self)) =
       fold (\<lambda>a. merge_items (snd a)) arrivals []"
    and g: "\<forall>f \<in> \<Union> (set ` set chunks).
        \<exists>files. glob env directory file_pattern = Inr files \<and> f \<in> set files"
    using search_directory2_any[of env self sched directory file_pattern] by blast
  from a have d: "\<forall>a \<in> set arrivals. distinct (map fst (snd a))"
    by (auto simp: distinct_process_files2)
  from assms have "f \<in> (\<Union>a \<in> set arrivals. lookup (snd a) k)"
    unfolding r lookup_fold_merge[OF d] by (simp add: lookup_def)
  then obtain chunk where "chunk \<in> set chunks" and "f \<in> set chunk"
    by (auto simp: a lookup_process_files2)
  with g show ?thesis by blast
qed

text \<open>
  C6, as the code has it. In the queue-based variant every path of the returned mapping is
  one of the files listed by that call. In the lock-based variant the global result is the
  \<open>results\<close> field of the instance, created empty by the constructor: a call returns the
  stored dictionary, which keeps every key and every path it had before the call, and every
  path it gains is a matching file listed by that call; with at least one worker and a
  successful listing the paths under a key are those stored before joined with the matching
  files of the call. On a freshly constructed instance the returned mapping holds only
  files listed by that call.
\<close>

theorem results_kept_on_instance:
  "snd (search_directory1 sched env directory file_pattern self) =
     results (fst (search_directory1 sched env directory file_pattern self)) \<and>
   fst ` set (results self) \<subseteq> fst ` set (snd (search_directory1 sched env directory file_pattern self)) \<and>
   (\<forall>k. lookup (results self) k \<subseteq>
          lookup (snd (search_directory1 sched env directory file_pattern self)) k) \<and>
   (\<forall>k f. f \<in> lookup (snd (search_directory1 sched env directory file_pattern self)) k \<longrightarrow>
          f \<in> lookup (results self) k \<or>
          (\<exists>files. glob env directory file_pattern = Inr files \<and> f \<in> set files \<and>
                   k \<in> set (keywords1 self) \<and> file_matches env k f)) \<and>
   (\<forall>k files. 1 \<le> num_threads self \<and> glob env directory file_pattern = Inr files \<longrightarrow>
          lookup (snd (search_directory1 sched env directory file_pattern self)) k =
            lookup (results self) k \<union>
            {f \<in> set files. k \<in> set (keywords1 self) \<and> file_matches env k f}) \<and>
   (\<forall>k f. f \<in> lookup (snd (search_directory1 sched env directory file_pattern (init1 kws n))) k \<longrightarrow>
          (\<exists>files. glob env directory file_pattern = Inr files \<and> f \<in> set files)) \<and>
   (\<forall>k f. f \<in> lookup (snd (snd (search_directory2 sched env directory file_pattern self2))) k \<longrightarrow>
          (\<exists>files. glob env directory file_pattern = Inr files \<and> f \<in> set files))"
proof -
  have any: "\<exists>order. snd (search_directory1 sched env directory file_pattern s) =
             results (fold (process_file1 env) order s) \<and>
           (\<forall>f \<in> set order. \<exists>files. glob env directory file_pattern = Inr files \<and> f \<in> set files)"
    for s by (rule search_directory1_any)
  obtain order where
    r: "snd (search_directory1 sched env directory file_pattern self) =
             results (fold (process_file1 env) order self)"
    and g: "\<forall>f \<in> set order. \<exists>files. glob env directory file_pattern = Inr files \<and> f \<in> set files"
    using any[of self] by blast
  obtain order' where
    r': "snd (search_directory1 sched env directory file_pattern (init1 kws n)) =
             results (fold (process_file1 env) order' (init1 kws n))"
    and g': "\<forall>f \<in> set order'. \<exists>files. glob env directory file_pattern = Inr files \<and> f \<in> set files"
    using any[of "init1 kws n"] by blast
  have fresh: "lookup (results (init1 kws n)) k = {}" for k
    by (simp add: init1_def lookup_def)
  show ?thesis
  proof (intro conjI allI impI)
    show "snd (search_directory1 sched env directory file_pattern self) =
        results (fst (search_directory1 sched env directory file_pattern self))"
      by (rule returned_is_results1)
    show "fst ` set (results self) \<subseteq>
        fst ` set (snd (search_directory1 sched env directory file_pattern self))"
      by (simp add: r keys_fold_process_file1)
    show "lookup (results self) k \<subseteq>
        lookup (snd (search_directory1 sched env directory file_pattern self)) k" for k
      by (simp add: r lookup_fold_process_file1)
    show "f \<in> lookup (results self) k \<or>
          (\<exists>files. glob env directory file_pattern = Inr files \<and> f \<in> set files \<and>
                   k \<in> set (keywords1 self) \<and> file_matches env k f)"
      if "f \<in> lookup (snd (search_directory1 sched env directory file_pattern self)) k" for k f
      using that g by (auto simp: r lookup_fold_process_file1)
    show "lookup (snd (search_directory1 sched env directory file_pattern self)) k =
            lookup (results self) k \<union>
            {f \<in> set files. k \<in> set (keywords1 self) \<and> file_matches env k f}"
      if "1 \<le> num_threads self \<and> glob env directory file_pattern = Inr files" for k files
      using that by (intro lookup_search_directory1) simp_all
    show "\<exists>files. glob env directory file_pattern = Inr files \<and> f \<in> set files"
      if "f \<in> lookup (snd (search_directory1 sched env directory file_pattern (init1 kws n))) k"
      for k f
      using that g' by (auto simp: r' lookup_fold_process_file1 fresh)
    show "\<exists>files. glob env directory file_pattern = Inr files \<and> f \<in> set files"
      if "f \<in> lookup (snd (snd (search_directory2 sched env directory file_pattern self2))) k"
      for k f
      using that by (rule lookup_search_directory2_any)
  qed
qed

text \<open>
  C6, as the claim states it, fails for the lock-based variant. A searcher for the keyword
  \<open>BA\<close> first searches directory \<open>docs\<close> and then directory \<open>more\<close>, which lists only \<open>b.txt\<close>:
  the second call returns \<open>a.txt\<close> as well, a file of the first call, while the same call on
  a fresh searcher returns \<open>b.txt\<close> alone.
\<close>

theorem second_call_returns_earlier_files:
  "glob example_env ''more'' ''*.txt'' = Inr [''b.txt''] \<and>
   snd (search_directory1 [] example_env ''more'' ''*.txt'' (init1 [''BA''] 2)) =
     [(''BA'', {''b.txt''})] \<and>
   results (fst (search_directory1 [] example_env ''docs'' ''*.txt'' (init1 [''BA''] 2))) =
     [(''BA'', {''a.txt'', ''b.txt''})] \<and>
   snd (search_directory1 [] example_env ''more'' ''*.txt''
          (fst (search_directory1 [] example_env ''docs'' ''*.txt'' (init1 [''BA''] 2)))) =
     [(''BA'', {''a.txt'', ''b.txt''})] \<and>
   ''a.txt'' \<in> lookup (snd (search_directory1 [] example_env ''more'' ''*.txt''
          (fst (search_directory1 [] example_env ''docs'' ''*.txt'' (init1 [''BA''] 2))))) ''BA'' \<and>
   ''a.txt'' \<notin> set [''b.txt'']"
  by code_simp

theorem results_kept_on_instance_witness:
  "1 \<le> num_threads (fst (search_directory1 [] example_env ''docs'' ''*.txt'' (init1 [''BA''] 2))) \<and>
   glob example_env ''more'' ''*.txt'' = Inr [''b.txt''] \<and>
   lookup (results (fst (search_directory1 [] example_env ''docs'' ''*.txt'' (init1 [''BA''] 2)))) ''BA'' =
     {''a.txt'', ''b.txt''} \<and>
   lookup (snd (search_directory1 [] example_env ''more'' ''*.txt''
          (fst (search_directory1 [] example_env ''docs'' ''*.txt'' (init1 [''BA''] 2))))) ''BA'' =
     lookup (results (fst (search_directory1 [] example_env ''docs'' ''*.txt'' (init1 [''BA''] 2)))) ''BA'' \<union>
     {f \<in> set [''b.txt''].
        ''BA'' \<in> set (keywords1 (fst (search_directory1 [] example_env ''docs'' ''*.txt'' (init1 [''BA''] 2)))) \<and>
        file_matches example_env ''BA'' f}"
proof -
  let ?self = "fst (search_directory1 [] example_env ''docs'' ''*.txt'' (init1 [''BA''] 2))"
  have h1: "1 \<le> num_threads ?self" by code_simp
  have h2: "glob example_env ''more'' ''*.txt'' = Inr [''b.txt'']" by (simp add: example_env_def)
  have v: "lookup (results ?self) ''BA'' = {''a.txt'', ''b.txt''}" by code_simp
  note t = results_kept_on_instance[of "[]" example_env "''more''" "''*.txt''" ?self "[]" 1
      "init2 [] None 1"]
  from t have "\<forall>k files. 1 \<le> num_threads ?self \<and> glob example_env ''more'' ''*.txt'' = Inr files \<longrightarrow>
          lookup (snd (search_directory1 [] example_env ''more'' ''*.txt'' ?self)) k =
            lookup (results ?self) k \<union>
            {f \<in> set files. k \<in> set (keywords1 ?self) \<and> file_matches example_env k f}"
    by (elim conjE)
  with h1 h2 have "lookup (snd (search_directory1 [] example_env ''more'' ''*.txt'' ?self)) ''BA'' =
            lookup (results ?self) ''BA'' \<union>
            {f \<in> set [''b.txt'']. ''BA'' \<in> set (keywords1 ?self) \<and> file_matches example_env ''BA'' f}"
    by blast
  with h1 h2 v show ?thesis by (intro conjI)
qed

end
